theory Spec2Isabelle
  imports Complex_Main "HOL-Library.Monad_Syntax" "HOL-Library.Log_Nat"
begin

text \<open>
  A shallow embedding of the pairwise distance engine of the aligner: the size helpers of
  the pairwise header, the triangular distance matrix, the neighbour-joining reducer, the
  scoring-table catalogue, the sequential Needleman-Wunsch backend and the pipeline runner.
  Definitions come first, results after them.
\<close>

section \<open>Buffers and errors\<close>

text \<open>
  A \<^verbatim>\<open>buffer<T>\<close> is a list. Reading or writing outside the buffer has no defined
  result in C++; the model makes that outcome explicit as \<open>None\<close>, so that a result
  \<open>Some x\<close> also says that every access stayed inside its buffer.
\<close>

definition rd :: "'a list \<Rightarrow> nat \<Rightarrow> 'a option" where
  "rd xs i = (if i < length xs then Some (xs ! i) else None)"

definition wr :: "'a list \<Rightarrow> nat \<Rightarrow> 'a \<Rightarrow> 'a list option" where
  "wr xs i v = (if i < length xs then Some (xs[i := v]) else None)"

text \<open>
  The sources throw one \<^verbatim>\<open>exception\<close> type that carries a message. The constructors
  name the three messages that matter here:
  \<^item> \<open>UnknownTable name\<close>: \<^verbatim>\<open>"unknown pairwise scoring table '%s'"\<close>;
  \<^item> \<open>PipelineVerificationFailed\<close>: \<^verbatim>\<open>"pipeline verification failed"\<close>;
  \<^item> \<open>NotFound key\<close>: the exception of a dispatcher that has no entry for \<open>key\<close>.
\<close>

datatype error =
  UnknownTable string
| PipelineVerificationFailed
| NotFound string


section \<open>Size helpers of the pairwise header\<close>

text \<open>
  \<^verbatim>\<open>divceil\<close> and \<^verbatim>\<open>align\<close> compute on C \<^verbatim>\<open>int\<close> (32 bits, two's complement).
  Signed overflow and division by zero have no defined result in C; the model returns
  \<open>None\<close> there. C division truncates towards zero whereas \<open>div\<close> on \<open>int\<close> rounds
  down, so the truncation is written out.
\<close>

definition INT_MAX :: int where
  "INT_MAX = 2147483647"

definition INT_MIN :: int where
  "INT_MIN = - 2147483648"

definition c_int :: "int \<Rightarrow> int option" where
  "c_int x = (if INT_MIN \<le> x \<and> x \<le> INT_MAX then Some x else None)"

definition trunc_div :: "int \<Rightarrow> int \<Rightarrow> int" where
  "trunc_div a b = sgn a * sgn b * (\<bar>a\<bar> div \<bar>b\<bar>)"

definition c_quot :: "int \<Rightarrow> int \<Rightarrow> int option" where
  "c_quot a b =
     (if b = 0 \<or> (a = INT_MIN \<and> b = - 1) then None
      else Some (trunc_div a b))"

definition c_rem :: "int \<Rightarrow> int \<Rightarrow> int option" where
  "c_rem a b =
     (if b = 0 \<or> (a = INT_MIN \<and> b = - 1) then None
      else Some (a - b * trunc_div a b))"

text \<open>\<^verbatim>\<open>inline int divceil(int a, int b) { return (a / b) + !!(a % b); }\<close>\<close>

definition divceil :: "int \<Rightarrow> int \<Rightarrow> int option" where
  "divceil a b =
     do {
       q \<leftarrow> c_quot a b;
       r \<leftarrow> c_rem a b;
       c_int (q + (if r \<noteq> 0 then 1 else 0))
     }"

text \<open>\<^verbatim>\<open>inline int align(int size, int align = 4) { return divceil(size, align) * align; }\<close>\<close>

definition align :: "int \<Rightarrow> int \<Rightarrow> int option" where
  "align sz w =
     do {
       d \<leftarrow> divceil sz w;
       c_int (d * w)
     }"


section \<open>Distance matrix\<close>

text \<open>
  \<^verbatim>\<open>pairwise::manager\<close> is a \<^verbatim>\<open>buffer<score>\<close> together with the number of aligned
  sequences. Its elements are only read, never computed with, so the element type
  is left open; the literal \<^verbatim>\<open>0\<close> of the diagonal needs a zero.
\<close>

record 'a manager =
  buf :: "'a list"
  m_count :: nat

text \<open>
  Modelled from the spec: \<^verbatim>\<open>utils::nchoose\<close> is called by the accessor but is not
  among the sources. The spec addresses the pair \<open>(max, min)\<close> at
  \<open>max \<sqdot> (max - 1) / 2 + min\<close>, which is also what \<^verbatim>\<open>utils::combinations\<close> of
  \<^verbatim>\<open>utils.hpp\<close> computes (\<^verbatim>\<open>(count * (count - 1)) >> 1\<close>).
\<close>

definition nchoose :: "nat \<Rightarrow> nat" where
  "nchoose n = n * (n - 1) div 2"

text \<open>
  \<^verbatim>\<open>manager::operator[](const cartesian<2>& offset)\<close>:
  \<^verbatim>\<open>return (min != max) ? underlying_buffer::operator[](utils::nchoose(max) + min) : 0;\<close>
\<close>

definition manager_at :: "('a::zero) manager \<Rightarrow> nat \<times> nat \<Rightarrow> 'a option" where
  "manager_at m offset =
     (let mn = min (fst offset) (snd offset);
          mx = max (fst offset) (snd offset)
      in if mn \<noteq> mx then rd (buf m) (nchoose mx + mn) else Some 0)"

text \<open>
  The older \<^verbatim>\<open>Pairwise::getScore(uint16_t x, uint16_t y)\<close> of the same header is not this
  accessor: it indexes an array of \<^verbatim>\<open>Score\<close> records that keeps the diagonal, at
  \<^verbatim>\<open>(max + 1) * max / 2 + min\<close>. It is not part of the distance matrix and is not modelled.
\<close>


section \<open>Neighbour-joining reducer\<close>

text \<open>
  Modelled from the spec: \<^verbatim>\<open>struct joinable\<close> is declared in \<^verbatim>\<open>njoining.cuh\<close>, which is
  not among the sources. A join candidate is the pair of references \<open>(u, v)\<close>, here
  \<open>ref1\<close> and \<open>ref2\<close>, with its Q value in the field \<open>distance\<close>, the only field
  the reducer reads. The reducer compares distances with \<^verbatim>\<open>>\<close> only, so any linearly
  ordered type stands for the scores (finite scores are linearly ordered).
\<close>

record 'd joinable =
  ref1 :: nat
  ref2 :: nat
  distance :: 'd

text \<open>\<^verbatim>\<open>return a.distance > b.distance ? a : b;\<close>\<close>

definition closest :: "('d::linorder) joinable \<Rightarrow> 'd joinable \<Rightarrow> 'd joinable" where
  "closest a b = (if distance a > distance b then a else b)"


section \<open>Scoring tables\<close>

text \<open>
  \<^verbatim>\<open>pairwise::score\<close> is \<^verbatim>\<open>float\<close> in the sources. Every entry of the seven tables and
  every gap penalty is an integer literal, and the backend only converts a position to a
  score, multiplies it by the penalty, adds, subtracts and takes maxima: every score it
  computes is an integer-valued single-precision number. The model keeps such a number as
  the \<open>int\<close> it denotes and rounds after every operation as IEEE 754 single precision does
  (a significand of 24 bits, round to nearest, ties to the even significand).
\<close>

type_synonym score = int

text \<open>
  \<open>f32_round x\<close> is the single-precision number nearest to the integer \<open>x\<close>. Integers of
  magnitude up to \<open>2\<^sup>2\<^sup>4\<close> are representable. A larger magnitude \<open>a\<close> with bit length \<open>n\<close>
  lies between multiples of \<open>q = 2\<^bsup>n - 24\<^esup>\<close>; it is rounded to the nearer multiple
  \<open>m \<sqdot> q\<close>, and to the one with even \<open>m\<close> when it lies halfway. A result of magnitude
  \<open>2\<^sup>1\<^sup>2\<^sup>8\<close> or more is infinite in the program; the model has no number for it and
  returns \<open>None\<close>.
\<close>

definition f32_round :: "int \<Rightarrow> int option" where
  "f32_round x =
     (let a = \<bar>x\<bar> in
      if a \<le> 2 ^ 24 then Some x
      else
        let q = 2 ^ nat (bitlen a - 24);
            m = a div q;
            r = a mod q;
            m' = (if q < 2 * r \<or> (2 * r = q \<and> odd m) then m + 1 else m)
        in if 2 ^ 128 \<le> m' * q then None else Some (sgn x * (m' * q)))"

text \<open>
  The operations on scores: the exact result of two representable operands, rounded.
  \<open>f32_of_nat\<close> is the conversion of a \<^verbatim>\<open>size_t\<close> to \<^verbatim>\<open>float\<close>.
\<close>

definition f32_add :: "score \<Rightarrow> score \<Rightarrow> score option" where
  "f32_add a b = f32_round (a + b)"

definition f32_sub :: "score \<Rightarrow> score \<Rightarrow> score option" where
  "f32_sub a b = f32_round (a - b)"

definition f32_mul :: "score \<Rightarrow> score \<Rightarrow> score option" where
  "f32_mul a b = f32_round (a * b)"

definition f32_of_nat :: "nat \<Rightarrow> score option" where
  "f32_of_nat n = f32_round (int n)"

text \<open>
  \<^verbatim>\<open>scoring_table\<close>: the contents (\<^verbatim>\<open>element_type[25][25]\<close>) and the penalty, both
  single-precision numbers.
\<close>

record scoring_table =
  m_contents :: "score list list"
  m_penalty :: score

text \<open>
  The raw tables of \<^verbatim>\<open>table_data[]\<close>. Rows and columns follow the order
  \<^verbatim>\<open>A C T G R N D Q E H I L K M F P S W Y V B J Z X *\<close> written above each table.
\<close>

definition table_default :: "score list list" where
  "table_default =
    [[1, - 1, - 1, - 1, - 1, - 1, - 1, - 1, - 1, - 1, - 1, - 1, - 1, - 1, - 1, - 1, - 1, - 1, - 1, - 1, - 1, - 1, - 1, - 1, - 1],
     [- 1, 1, - 1, - 1, - 1, - 1, - 1, - 1, - 1, - 1, - 1, - 1, - 1, - 1, - 1, - 1, - 1, - 1, - 1, - 1, - 1, - 1, - 1, - 1, - 1],
     [- 1, - 1, 1, - 1, - 1, - 1, - 1, - 1, - 1, - 1, - 1, - 1, - 1, - 1, - 1, - 1, - 1, - 1, - 1, - 1, - 1, - 1, - 1, - 1, - 1],
     [- 1, - 1, - 1, 1, - 1, - 1, - 1, - 1, - 1, - 1, - 1, - 1, - 1, - 1, - 1, - 1, - 1, - 1, - 1, - 1, - 1, - 1, - 1, - 1, - 1],
     [- 1, - 1, - 1, - 1, 1, - 1, - 1, - 1, - 1, - 1, - 1, - 1, - 1, - 1, - 1, - 1, - 1, - 1, - 1, - 1, - 1, - 1, - 1, - 1, - 1],
     [- 1, - 1, - 1, - 1, - 1, 1, - 1, - 1, - 1, - 1, - 1, - 1, - 1, - 1, - 1, - 1, - 1, - 1, - 1, - 1, - 1, - 1, - 1, - 1, - 1],
     [- 1, - 1, - 1, - 1, - 1, - 1, 1, - 1, - 1, - 1, - 1, - 1, - 1, - 1, - 1, - 1, - 1, - 1, - 1, - 1, - 1, - 1, - 1, - 1, - 1],
     [- 1, - 1, - 1, - 1, - 1, - 1, - 1, 1, - 1, - 1, - 1, - 1, - 1, - 1, - 1, - 1, - 1, - 1, - 1, - 1, - 1, - 1, - 1, - 1, - 1],
     [- 1, - 1, - 1, - 1, - 1, - 1, - 1, - 1, 1, - 1, - 1, - 1, - 1, - 1, - 1, - 1, - 1, - 1, - 1, - 1, - 1, - 1, - 1, - 1, - 1],
     [- 1, - 1, - 1, - 1, - 1, - 1, - 1, - 1, - 1, 1, - 1, - 1, - 1, - 1, - 1, - 1, - 1, - 1, - 1, - 1, - 1, - 1, - 1, - 1, - 1],
     [- 1, - 1, - 1, - 1, - 1, - 1, - 1, - 1, - 1, - 1, 1, - 1, - 1, - 1, - 1, - 1, - 1, - 1, - 1, - 1, - 1, - 1, - 1, - 1, - 1],
     [- 1, - 1, - 1, - 1, - 1, - 1, - 1, - 1, - 1, - 1, - 1, 1, - 1, - 1, - 1, - 1, - 1, - 1, - 1, - 1, - 1, - 1, - 1, - 1, - 1],
     [- 1, - 1, - 1, - 1, - 1, - 1, - 1, - 1, - 1, - 1, - 1, - 1, 1, - 1, - 1, - 1, - 1, - 1, - 1, - 1, - 1, - 1, - 1, - 1, - 1],
     [- 1, - 1, - 1, - 1, - 1, - 1, - 1, - 1, - 1, - 1, - 1, - 1, - 1, 1, - 1, - 1, - 1, - 1, - 1, - 1, - 1, - 1, - 1, - 1, - 1],
     [- 1, - 1, - 1, - 1, - 1, - 1, - 1, - 1, - 1, - 1, - 1, - 1, - 1, - 1, 1, - 1, - 1, - 1, - 1, - 1, - 1, - 1, - 1, - 1, - 1],
     [- 1, - 1, - 1, - 1, - 1, - 1, - 1, - 1, - 1, - 1, - 1, - 1, - 1, - 1, - 1, 1, - 1, - 1, - 1, - 1, - 1, - 1, - 1, - 1, - 1],
     [- 1, - 1, - 1, - 1, - 1, - 1, - 1, - 1, - 1, - 1, - 1, - 1, - 1, - 1, - 1, - 1, 1, - 1, - 1, - 1, - 1, - 1, - 1, - 1, - 1],
     [- 1, - 1, - 1, - 1, - 1, - 1, - 1, - 1, - 1, - 1, - 1, - 1, - 1, - 1, - 1, - 1, - 1, 1, - 1, - 1, - 1, - 1, - 1, - 1, - 1],
     [- 1, - 1, - 1, - 1, - 1, - 1, - 1, - 1, - 1, - 1, - 1, - 1, - 1, - 1, - 1, - 1, - 1, - 1, 1, - 1, - 1, - 1, - 1, - 1, - 1],
     [- 1, - 1, - 1, - 1, - 1, - 1, - 1, - 1, - 1, - 1, - 1, - 1, - 1, - 1, - 1, - 1, - 1, - 1, - 1, 1, - 1, - 1, - 1, - 1, - 1],
     [- 1, - 1, - 1, - 1, - 1, - 1, - 1, - 1, - 1, - 1, - 1, - 1, - 1, - 1, - 1, - 1, - 1, - 1, - 1, - 1, 1, - 1, - 1, - 1, - 1],
     [- 1, - 1, - 1, - 1, - 1, - 1, - 1, - 1, - 1, - 1, - 1, - 1, - 1, - 1, - 1, - 1, - 1, - 1, - 1, - 1, - 1, 1, - 1, - 1, - 1],
     [- 1, - 1, - 1, - 1, - 1, - 1, - 1, - 1, - 1, - 1, - 1, - 1, - 1, - 1, - 1, - 1, - 1, - 1, - 1, - 1, - 1, - 1, 1, - 1, - 1],
     [- 1, - 1, - 1, - 1, - 1, - 1, - 1, - 1, - 1, - 1, - 1, - 1, - 1, - 1, - 1, - 1, - 1, - 1, - 1, - 1, - 1, - 1, - 1, - 1, - 1],
     [- 1, - 1, - 1, - 1, - 1, - 1, - 1, - 1, - 1, - 1, - 1, - 1, - 1, - 1, - 1, - 1, - 1, - 1, - 1, - 1, - 1, - 1, - 1, - 1, 0]]"

definition table_blosum62 :: "score list list" where
  "table_blosum62 =
    [[4, 0, 0, 0, - 1, - 2, - 2, - 1, - 1, - 2, - 1, - 1, - 1, - 1, - 2, - 1, 1, - 3, - 2, 0, - 2, - 1, - 1, - 1, - 4],
     [0, 9, - 1, - 3, - 3, - 3, - 3, - 3, - 4, - 3, - 1, - 1, - 3, - 1, - 2, - 3, - 1, - 2, - 2, - 1, - 3, - 1, - 3, - 1, - 4],
     [0, - 1, 5, - 2, - 1, 0, - 1, - 1, - 1, - 2, - 1, - 1, - 1, - 1, - 2, - 1, 1, - 2, - 2, 0, - 1, - 1, - 1, - 1, - 4],
     [0, - 3, - 2, 6, - 2, 0, - 1, - 2, - 2, - 2, - 4, - 4, - 2, - 3, - 3, - 2, 0, - 2, - 3, - 3, - 1, - 4, - 2, - 1, - 4],
     [- 1, - 3, - 1, - 2, 5, 0, - 2, 1, 0, 0, - 3, - 2, 2, - 1, - 3, - 2, - 1, - 3, - 2, - 3, - 1, - 2, 0, - 1, - 4],
     [- 2, - 3, 0, 0, 0, 6, 1, 0, 0, 1, - 3, - 3, 0, - 2, - 3, - 2, 1, - 4, - 2, - 3, 4, - 3, 0, - 1, - 4],
     [- 2, - 3, - 1, - 1, - 2, 1, 6, 0, 2, - 1, - 3, - 4, - 1, - 3, - 3, - 1, 0, - 4, - 3, - 3, 4, - 3, 1, - 1, - 4],
     [- 1, - 3, - 1, - 2, 1, 0, 0, 5, 2, 0, - 3, - 2, 1, 0, - 3, - 1, 0, - 2, - 1, - 2, 0, - 2, 4, - 1, - 4],
     [- 1, - 4, - 1, - 2, 0, 0, 2, 2, 5, 0, - 3, - 3, 1, - 2, - 3, - 1, 0, - 3, - 2, - 2, 1, - 3, 4, - 1, - 4],
     [- 2, - 3, - 2, - 2, 0, 1, - 1, 0, 0, 8, - 3, - 3, - 1, - 2, - 1, - 2, - 1, - 2, 2, - 3, 0, - 3, 0, - 1, - 4],
     [- 1, - 1, - 1, - 4, - 3, - 3, - 3, - 3, - 3, - 3, 4, 2, - 3, 1, 0, - 3, - 2, - 3, - 1, 3, - 3, 3, - 3, - 1, - 4],
     [- 1, - 1, - 1, - 4, - 2, - 3, - 4, - 2, - 3, - 3, 2, 4, - 2, 2, 0, - 3, - 2, - 2, - 1, 1, - 4, 3, - 3, - 1, - 4],
     [- 1, - 3, - 1, - 2, 2, 0, - 1, 1, 1, - 1, - 3, - 2, 5, - 1, - 3, - 1, 0, - 3, - 2, - 2, 0, - 3, 1, - 1, - 4],
     [- 1, - 1, - 1, - 3, - 1, - 2, - 3, 0, - 2, - 2, 1, 2, - 1, 5, 0, - 2, - 1, - 1, - 1, 1, - 3, 2, - 1, - 1, - 4],
     [- 2, - 2, - 2, - 3, - 3, - 3, - 3, - 3, - 3, - 1, 0, 0, - 3, 0, 6, - 4, - 2, 1, 3, - 1, - 3, 0, - 3, - 1, - 4],
     [- 1, - 3, - 1, - 2, - 2, - 2, - 1, - 1, - 1, - 2, - 3, - 3, - 1, - 2, - 4, 7, - 1, - 4, - 3, - 2, - 2, - 3, - 1, - 1, - 4],
     [1, - 1, 1, 0, - 1, 1, 0, 0, 0, - 1, - 2, - 2, 0, - 1, - 2, - 1, 4, - 3, - 2, - 2, 0, - 2, 0, - 1, - 4],
     [- 3, - 2, - 2, - 2, - 3, - 4, - 4, - 2, - 3, - 2, - 3, - 2, - 3, - 1, 1, - 4, - 3, 11, 2, - 3, - 4, - 2, - 2, - 1, - 4],
     [- 2, - 2, - 2, - 3, - 2, - 2, - 3, - 1, - 2, 2, - 1, - 1, - 2, - 1, 3, - 3, - 2, 2, 7, - 1, - 3, - 1, - 2, - 1, - 4],
     [0, - 1, 0, - 3, - 3, - 3, - 3, - 2, - 2, - 3, 3, 1, - 2, 1, - 1, - 2, - 2, - 3, - 1, 4, - 3, 2, - 2, - 1, - 4],
     [- 2, - 3, - 1, - 1, - 1, 4, 4, 0, 1, 0, - 3, - 4, 0, - 3, - 3, - 2, 0, - 4, - 3, - 3, 4, - 3, 0, - 1, - 4],
     [- 1, - 1, - 1, - 4, - 2, - 3, - 3, - 2, - 3, - 3, 3, 3, - 3, 2, 0, - 3, - 2, - 2, - 1, 2, - 3, 3, - 3, - 1, - 4],
     [- 1, - 3, - 1, - 2, 0, 0, 1, 4, 4, 0, - 3, - 3, 1, - 1, - 3, - 1, 0, - 2, - 2, - 2, 0, - 3, 4, - 1, - 4],
     [- 1, - 1, - 1, - 1, - 1, - 1, - 1, - 1, - 1, - 1, - 1, - 1, - 1, - 1, - 1, - 1, - 1, - 1, - 1, - 1, - 1, - 1, - 1, - 1, - 4],
     [- 4, - 4, - 4, - 4, - 4, - 4, - 4, - 4, - 4, - 4, - 4, - 4, - 4, - 4, - 4, - 4, - 4, - 4, - 4, - 4, - 4, - 4, - 4, - 4, 0]]"

definition table_blosum45 :: "score list list" where
  "table_blosum45 =
    [[5, - 1, 0, - 1, - 2, - 1, - 2, - 1, 0, - 2, - 1, - 1, - 1, - 1, - 2, - 1, 1, - 2, - 2, 0, - 1, - 1, - 1, - 1, - 5],
     [- 1, 12, - 1, - 3, - 3, - 2, - 3, - 3, - 3, - 3, - 3, - 2, - 3, - 2, - 2, - 4, - 1, - 5, - 3, - 1, - 2, - 2, - 3, - 1, - 5],
     [0, - 1, 5, - 1, - 1, 0, - 1, - 1, - 2, - 2, - 1, - 1, - 1, - 1, - 1, - 1, 2, - 3, - 1, 0, 0, - 1, - 1, - 1, - 5],
     [- 1, - 3, - 1, 6, 0, 0, 2, 2, - 2, 0, - 3, - 2, 1, - 2, - 3, 0, 0, - 3, - 2, - 3, 1, - 3, 5, - 1, - 5],
     [- 2, - 3, - 1, 0, 7, 0, - 1, 1, - 2, 0, - 3, - 2, 3, - 1, - 2, - 2, - 1, - 2, - 1, - 2, - 1, - 3, 1, - 1, - 5],
     [- 1, - 2, 0, 0, 0, 6, 2, 0, 0, 1, - 2, - 3, 0, - 2, - 2, - 2, 1, - 4, - 2, - 3, 5, - 3, 0, - 1, - 5],
     [- 2, - 3, - 1, 2, - 1, 2, 7, 0, - 1, 0, - 4, - 3, 0, - 3, - 4, - 1, 0, - 4, - 2, - 3, 6, - 3, 1, - 1, - 5],
     [- 1, - 3, - 1, 2, 1, 0, 0, 6, - 2, 1, - 2, - 2, 1, 0, - 4, - 1, 0, - 2, - 1, - 3, 0, - 2, 4, - 1, - 5],
     [0, - 3, - 2, - 2, - 2, 0, - 1, - 2, 7, - 2, - 4, - 3, - 2, - 2, - 3, - 2, 0, - 2, - 3, - 3, - 1, - 4, - 2, - 1, - 5],
     [- 2, - 3, - 2, 0, 0, 1, 0, 1, - 2, 10, - 3, - 2, - 1, 0, - 2, - 2, - 1, - 3, 2, - 3, 0, - 2, 0, - 1, - 5],
     [- 1, - 3, - 1, - 3, - 3, - 2, - 4, - 2, - 4, - 3, 5, 2, - 3, 2, 0, - 2, - 2, - 2, 0, 3, - 3, 4, - 3, - 1, - 5],
     [- 1, - 2, - 1, - 2, - 2, - 3, - 3, - 2, - 3, - 2, 2, 5, - 3, 2, 1, - 3, - 3, - 2, 0, 1, - 3, 4, - 2, - 1, - 5],
     [- 1, - 3, - 1, 1, 3, 0, 0, 1, - 2, - 1, - 3, - 3, 5, - 1, - 3, - 1, - 1, - 2, - 1, - 2, 0, - 3, 1, - 1, - 5],
     [- 1, - 2, - 1, - 2, - 1, - 2, - 3, 0, - 2, 0, 2, 2, - 1, 6, 0, - 2, - 2, - 2, 0, 1, - 2, 2, - 1, - 1, - 5],
     [- 2, - 2, - 1, - 3, - 2, - 2, - 4, - 4, - 3, - 2, 0, 1, - 3, 0, 8, - 3, - 2, 1, 3, 0, - 3, 1, - 3, - 1, - 5],
     [- 1, - 4, - 1, 0, - 2, - 2, - 1, - 1, - 2, - 2, - 2, - 3, - 1, - 2, - 3, 9, - 1, - 3, - 3, - 3, - 2, - 3, - 1, - 1, - 5],
     [1, - 1, 2, 0, - 1, 1, 0, 0, 0, - 1, - 2, - 3, - 1, - 2, - 2, - 1, 4, - 4, - 2, - 1, 0, - 2, 0, - 1, - 5],
     [- 2, - 5, - 3, - 3, - 2, - 4, - 4, - 2, - 2, - 3, - 2, - 2, - 2, - 2, 1, - 3, - 4, 15, 3, - 3, - 4, - 2, - 2, - 1, - 5],
     [- 2, - 3, - 1, - 2, - 1, - 2, - 2, - 1, - 3, 2, 0, 0, - 1, 0, 3, - 3, - 2, 3, 8, - 1, - 2, 0, - 2, - 1, - 5],
     [0, - 1, 0, - 3, - 2, - 3, - 3, - 3, - 3, - 3, 3, 1, - 2, 1, 0, - 3, - 1, - 3, - 1, 5, - 3, 2, - 3, - 1, - 5],
     [- 1, - 2, 0, 1, - 1, 5, 6, 0, - 1, 0, - 3, - 3, 0, - 2, - 3, - 2, 0, - 4, - 2, - 3, 5, - 3, 1, - 1, - 5],
     [- 1, - 2, - 1, - 3, - 3, - 3, - 3, - 2, - 4, - 2, 4, 4, - 3, 2, 1, - 3, - 2, - 2, 0, 2, - 3, 4, - 2, - 1, - 5],
     [- 1, - 3, - 1, 5, 1, 0, 1, 4, - 2, 0, - 3, - 2, 1, - 1, - 3, - 1, 0, - 2, - 2, - 3, 1, - 2, 5, - 1, - 5],
     [- 1, - 1, - 1, - 1, - 1, - 1, - 1, - 1, - 1, - 1, - 1, - 1, - 1, - 1, - 1, - 1, - 1, - 1, - 1, - 1, - 1, - 1, - 1, - 1, - 5],
     [- 5, - 5, - 5, - 5, - 5, - 5, - 5, - 5, - 5, - 5, - 5, - 5, - 5, - 5, - 5, - 5, - 5, - 5, - 5, - 5, - 5, - 5, - 5, - 5, 0]]"

definition table_blosum50 :: "score list list" where
  "table_blosum50 =
    [[5, - 1, - 3, - 2, - 2, - 1, - 2, - 1, - 1, 0, - 1, - 2, - 1, - 1, - 3, - 1, 1, 0, - 2, 0, - 2, - 2, - 1, - 1, - 5],
     [- 1, 13, - 5, - 3, - 4, - 2, - 4, - 3, - 3, - 3, - 2, - 2, - 3, - 2, - 2, - 4, - 1, - 1, - 3, - 1, - 3, - 2, - 3, - 1, - 5],
     [- 3, - 5, 15, - 3, - 3, - 4, - 5, - 1, - 3, - 3, - 3, - 2, - 3, - 1, 1, - 4, - 4, - 3, 2, - 3, - 5, - 2, - 2, - 1, - 5],
     [- 2, - 3, - 3, 10, 0, 1, - 1, 1, 0, - 2, - 4, - 3, 0, - 1, - 1, - 2, - 1, - 2, 2, - 4, 0, - 3, 0, - 1, - 5],
     [- 2, - 4, - 3, 0, 7, - 1, - 2, 1, 0, - 3, - 4, - 3, 3, - 2, - 3, - 3, - 1, - 1, - 1, - 3, - 1, - 3, 0, - 1, - 5],
     [- 1, - 2, - 4, 1, - 1, 7, 2, 0, 0, 0, - 3, - 4, 0, - 2, - 4, - 2, 1, 0, - 2, - 3, 5, - 4, 0, - 1, - 5],
     [- 2, - 4, - 5, - 1, - 2, 2, 8, 0, 2, - 1, - 4, - 4, - 1, - 4, - 5, - 1, 0, - 1, - 3, - 4, 6, - 4, 1, - 1, - 5],
     [- 1, - 3, - 1, 1, 1, 0, 0, 7, 2, - 2, - 3, - 2, 2, 0, - 4, - 1, 0, - 1, - 1, - 3, 0, - 3, 4, - 1, - 5],
     [- 1, - 3, - 3, 0, 0, 0, 2, 2, 6, - 3, - 4, - 3, 1, - 2, - 3, - 1, - 1, - 1, - 2, - 3, 1, - 3, 5, - 1, - 5],
     [0, - 3, - 3, - 2, - 3, 0, - 1, - 2, - 3, 8, - 4, - 4, - 2, - 3, - 4, - 2, 0, - 2, - 3, - 4, - 1, - 4, - 2, - 1, - 5],
     [- 1, - 2, - 3, - 4, - 4, - 3, - 4, - 3, - 4, - 4, 5, 2, - 3, 2, 0, - 3, - 3, - 1, - 1, 4, - 4, 4, - 3, - 1, - 5],
     [- 2, - 2, - 2, - 3, - 3, - 4, - 4, - 2, - 3, - 4, 2, 5, - 3, 3, 1, - 4, - 3, - 1, - 1, 1, - 4, 4, - 3, - 1, - 5],
     [- 1, - 3, - 3, 0, 3, 0, - 1, 2, 1, - 2, - 3, - 3, 6, - 2, - 4, - 1, 0, - 1, - 2, - 3, 0, - 3, 1, - 1, - 5],
     [- 1, - 2, - 1, - 1, - 2, - 2, - 4, 0, - 2, - 3, 2, 3, - 2, 7, 0, - 3, - 2, - 1, 0, 1, - 3, 2, - 1, - 1, - 5],
     [- 3, - 2, 1, - 1, - 3, - 4, - 5, - 4, - 3, - 4, 0, 1, - 4, 0, 8, - 4, - 3, - 2, 4, - 1, - 4, 1, - 4, - 1, - 5],
     [- 1, - 4, - 4, - 2, - 3, - 2, - 1, - 1, - 1, - 2, - 3, - 4, - 1, - 3, - 4, 10, - 1, - 1, - 3, - 3, - 2, - 3, - 1, - 1, - 5],
     [1, - 1, - 4, - 1, - 1, 1, 0, 0, - 1, 0, - 3, - 3, 0, - 2, - 3, - 1, 5, 2, - 2, - 2, 0, - 3, 0, - 1, - 5],
     [0, - 1, - 3, - 2, - 1, 0, - 1, - 1, - 1, - 2, - 1, - 1, - 1, - 1, - 2, - 1, 2, 5, - 2, 0, 0, - 1, - 1, - 1, - 5],
     [- 2, - 3, 2, 2, - 1, - 2, - 3, - 1, - 2, - 3, - 1, - 1, - 2, 0, 4, - 3, - 2, - 2, 8, - 1, - 3, - 1, - 2, - 1, - 5],
     [0, - 1, - 3, - 4, - 3, - 3, - 4, - 3, - 3, - 4, 4, 1, - 3, 1, - 1, - 3, - 2, 0, - 1, 5, - 3, 2, - 3, - 1, - 5],
     [- 2, - 3, - 5, 0, - 1, 5, 6, 0, 1, - 1, - 4, - 4, 0, - 3, - 4, - 2, 0, 0, - 3, - 3, 6, - 4, 1, - 1, - 5],
     [- 2, - 2, - 2, - 3, - 3, - 4, - 4, - 3, - 3, - 4, 4, 4, - 3, 2, 1, - 3, - 3, - 1, - 1, 2, - 4, 4, - 3, - 1, - 5],
     [- 1, - 3, - 2, 0, 0, 0, 1, 4, 5, - 2, - 3, - 3, 1, - 1, - 4, - 1, 0, - 1, - 2, - 3, 1, - 3, 5, - 1, - 5],
     [- 1, - 1, - 1, - 1, - 1, - 1, - 1, - 1, - 1, - 1, - 1, - 1, - 1, - 1, - 1, - 1, - 1, - 1, - 1, - 1, - 1, - 1, - 1, - 1, - 5],
     [- 5, - 5, - 5, - 5, - 5, - 5, - 5, - 5, - 5, - 5, - 5, - 5, - 5, - 5, - 5, - 5, - 5, - 5, - 5, - 5, - 5, - 5, - 5, - 5, 0]]"

definition table_blosum80 :: "score list list" where
  "table_blosum80 =
    [[5, - 1, 0, - 1, - 2, - 2, - 2, - 1, 0, - 2, - 2, - 2, - 1, - 1, - 3, - 1, 1, - 3, - 2, 0, - 2, - 2, - 1, - 1, - 6],
     [- 1, 9, - 1, - 5, - 4, - 3, - 4, - 4, - 4, - 4, - 2, - 2, - 4, - 2, - 3, - 4, - 2, - 3, - 3, - 1, - 4, - 2, - 4, - 1, - 6],
     [0, - 1, 5, - 1, - 1, 0, - 1, - 1, - 2, - 2, - 1, - 2, - 1, - 1, - 2, - 2, 1, - 4, - 2, 0, - 1, - 1, - 1, - 1, - 6],
     [- 1, - 5, - 1, 6, - 1, - 1, 1, 2, - 3, 0, - 4, - 4, 1, - 2, - 4, - 2, 0, - 4, - 3, - 3, 1, - 4, 5, - 1, - 6],
     [- 2, - 4, - 1, - 1, 6, - 1, - 2, 1, - 3, 0, - 3, - 3, 2, - 2, - 4, - 2, - 1, - 4, - 3, - 3, - 1, - 3, 0, - 1, - 6],
     [- 2, - 3, 0, - 1, - 1, 6, 1, 0, - 1, 0, - 4, - 4, 0, - 3, - 4, - 3, 0, - 4, - 3, - 4, 5, - 4, 0, - 1, - 6],
     [- 2, - 4, - 1, 1, - 2, 1, 6, - 1, - 2, - 2, - 4, - 5, - 1, - 4, - 4, - 2, - 1, - 6, - 4, - 4, 5, - 5, 1, - 1, - 6],
     [- 1, - 4, - 1, 2, 1, 0, - 1, 6, - 2, 1, - 3, - 3, 1, 0, - 4, - 2, 0, - 3, - 2, - 3, 0, - 3, 4, - 1, - 6],
     [0, - 4, - 2, - 3, - 3, - 1, - 2, - 2, 6, - 3, - 5, - 4, - 2, - 4, - 4, - 3, - 1, - 4, - 4, - 4, - 1, - 5, - 3, - 1, - 6],
     [- 2, - 4, - 2, 0, 0, 0, - 2, 1, - 3, 8, - 4, - 3, - 1, - 2, - 2, - 3, - 1, - 3, 2, - 4, - 1, - 4, 0, - 1, - 6],
     [- 2, - 2, - 1, - 4, - 3, - 4, - 4, - 3, - 5, - 4, 5, 1, - 3, 1, - 1, - 4, - 3, - 3, - 2, 3, - 4, 3, - 4, - 1, - 6],
     [- 2, - 2, - 2, - 4, - 3, - 4, - 5, - 3, - 4, - 3, 1, 4, - 3, 2, 0, - 3, - 3, - 2, - 2, 1, - 4, 3, - 3, - 1, - 6],
     [- 1, - 4, - 1, 1, 2, 0, - 1, 1, - 2, - 1, - 3, - 3, 5, - 2, - 4, - 1, - 1, - 4, - 3, - 3, - 1, - 3, 1, - 1, - 6],
     [- 1, - 2, - 1, - 2, - 2, - 3, - 4, 0, - 4, - 2, 1, 2, - 2, 6, 0, - 3, - 2, - 2, - 2, 1, - 3, 2, - 1, - 1, - 6],
     [- 3, - 3, - 2, - 4, - 4, - 4, - 4, - 4, - 4, - 2, - 1, 0, - 4, 0, 6, - 4, - 3, 0, 3, - 1, - 4, 0, - 4, - 1, - 6],
     [- 1, - 4, - 2, - 2, - 2, - 3, - 2, - 2, - 3, - 3, - 4, - 3, - 1, - 3, - 4, 8, - 1, - 5, - 4, - 3, - 2, - 4, - 2, - 1, - 6],
     [1, - 2, 1, 0, - 1, 0, - 1, 0, - 1, - 1, - 3, - 3, - 1, - 2, - 3, - 1, 5, - 4, - 2, - 2, 0, - 3, 0, - 1, - 6],
     [- 3, - 3, - 4, - 4, - 4, - 4, - 6, - 3, - 4, - 3, - 3, - 2, - 4, - 2, 0, - 5, - 4, 11, 2, - 3, - 5, - 3, - 3, - 1, - 6],
     [- 2, - 3, - 2, - 3, - 3, - 3, - 4, - 2, - 4, 2, - 2, - 2, - 3, - 2, 3, - 4, - 2, 2, 7, - 2, - 3, - 2, - 3, - 1, - 6],
     [0, - 1, 0, - 3, - 3, - 4, - 4, - 3, - 4, - 4, 3, 1, - 3, 1, - 1, - 3, - 2, - 3, - 2, 4, - 4, 2, - 3, - 1, - 6],
     [- 2, - 4, - 1, 1, - 1, 5, 5, 0, - 1, - 1, - 4, - 4, - 1, - 3, - 4, - 2, 0, - 5, - 3, - 4, 5, - 4, 0, - 1, - 6],
     [- 2, - 2, - 1, - 4, - 3, - 4, - 5, - 3, - 5, - 4, 3, 3, - 3, 2, 0, - 4, - 3, - 3, - 2, 2, - 4, 3, - 3, - 1, - 6],
     [- 1, - 4, - 1, 5, 0, 0, 1, 4, - 3, 0, - 4, - 3, 1, - 1, - 4, - 2, 0, - 3, - 3, - 3, 0, - 3, 5, - 1, - 6],
     [- 1, - 1, - 1, - 1, - 1, - 1, - 1, - 1, - 1, - 1, - 1, - 1, - 1, - 1, - 1, - 1, - 1, - 1, - 1, - 1, - 1, - 1, - 1, - 1, - 6],
     [- 6, - 6, - 6, - 6, - 6, - 6, - 6, - 6, - 6, - 6, - 6, - 6, - 6, - 6, - 6, - 6, - 6, - 6, - 6, - 6, - 6, - 6, - 6, - 6, 0]]"

definition table_blosum90 :: "score list list" where
  "table_blosum90 =
    [[5, - 1, 0, - 1, - 2, - 2, - 3, - 1, 0, - 2, - 2, - 2, - 1, - 2, - 3, - 1, 1, - 4, - 3, - 1, - 2, - 2, - 1, - 1, - 6],
     [- 1, 9, - 2, - 6, - 5, - 4, - 5, - 4, - 4, - 5, - 2, - 2, - 4, - 2, - 3, - 4, - 2, - 4, - 4, - 2, - 4, - 2, - 5, - 1, - 6],
     [0, - 2, 6, - 1, - 2, 0, - 2, - 1, - 3, - 2, - 1, - 2, - 1, - 1, - 3, - 2, 1, - 4, - 2, - 1, - 1, - 2, - 1, - 1, - 6],
     [- 1, - 6, - 1, 6, - 1, - 1, 1, 2, - 3, - 1, - 4, - 4, 0, - 3, - 5, - 2, - 1, - 5, - 4, - 3, 1, - 4, 5, - 1, - 6],
     [- 2, - 5, - 2, - 1, 6, - 1, - 3, 1, - 3, 0, - 4, - 3, 2, - 2, - 4, - 3, - 1, - 4, - 3, - 3, - 2, - 3, 0, - 1, - 6],
     [- 2, - 4, 0, - 1, - 1, 7, 1, 0, - 1, 0, - 4, - 4, 0, - 3, - 4, - 3, 0, - 5, - 3, - 4, 5, - 4, - 1, - 1, - 6],
     [- 3, - 5, - 2, 1, - 3, 1, 7, - 1, - 2, - 2, - 5, - 5, - 1, - 4, - 5, - 3, - 1, - 6, - 4, - 5, 5, - 5, 1, - 1, - 6],
     [- 1, - 4, - 1, 2, 1, 0, - 1, 7, - 3, 1, - 4, - 3, 1, 0, - 4, - 2, - 1, - 3, - 3, - 3, - 1, - 3, 5, - 1, - 6],
     [0, - 4, - 3, - 3, - 3, - 1, - 2, - 3, 6, - 3, - 5, - 5, - 2, - 4, - 5, - 3, - 1, - 4, - 5, - 5, - 2, - 5, - 3, - 1, - 6],
     [- 2, - 5, - 2, - 1, 0, 0, - 2, 1, - 3, 8, - 4, - 4, - 1, - 3, - 2, - 3, - 2, - 3, 1, - 4, - 1, - 4, 0, - 1, - 6],
     [- 2, - 2, - 1, - 4, - 4, - 4, - 5, - 4, - 5, - 4, 5, 1, - 4, 1, - 1, - 4, - 3, - 4, - 2, 3, - 5, 3, - 4, - 1, - 6],
     [- 2, - 2, - 2, - 4, - 3, - 4, - 5, - 3, - 5, - 4, 1, 5, - 3, 2, 0, - 4, - 3, - 3, - 2, 0, - 5, 4, - 4, - 1, - 6],
     [- 1, - 4, - 1, 0, 2, 0, - 1, 1, - 2, - 1, - 4, - 3, 6, - 2, - 4, - 2, - 1, - 5, - 3, - 3, - 1, - 3, 1, - 1, - 6],
     [- 2, - 2, - 1, - 3, - 2, - 3, - 4, 0, - 4, - 3, 1, 2, - 2, 7, - 1, - 3, - 2, - 2, - 2, 0, - 4, 2, - 2, - 1, - 6],
     [- 3, - 3, - 3, - 5, - 4, - 4, - 5, - 4, - 5, - 2, - 1, 0, - 4, - 1, 7, - 4, - 3, 0, 3, - 2, - 4, 0, - 4, - 1, - 6],
     [- 1, - 4, - 2, - 2, - 3, - 3, - 3, - 2, - 3, - 3, - 4, - 4, - 2, - 3, - 4, 8, - 2, - 5, - 4, - 3, - 3, - 4, - 2, - 1, - 6],
     [1, - 2, 1, - 1, - 1, 0, - 1, - 1, - 1, - 2, - 3, - 3, - 1, - 2, - 3, - 2, 5, - 4, - 3, - 2, 0, - 3, - 1, - 1, - 6],
     [- 4, - 4, - 4, - 5, - 4, - 5, - 6, - 3, - 4, - 3, - 4, - 3, - 5, - 2, 0, - 5, - 4, 11, 2, - 3, - 6, - 3, - 4, - 1, - 6],
     [- 3, - 4, - 2, - 4, - 3, - 3, - 4, - 3, - 5, 1, - 2, - 2, - 3, - 2, 3, - 4, - 3, 2, 8, - 3, - 4, - 2, - 3, - 1, - 6],
     [- 1, - 2, - 1, - 3, - 3, - 4, - 5, - 3, - 5, - 4, 3, 0, - 3, 0, - 2, - 3, - 2, - 3, - 3, 5, - 4, 1, - 3, - 1, - 6],
     [- 2, - 4, - 1, 1, - 2, 5, 5, - 1, - 2, - 1, - 5, - 5, - 1, - 4, - 4, - 3, 0, - 6, - 4, - 4, 5, - 5, 0, - 1, - 6],
     [- 2, - 2, - 2, - 4, - 3, - 4, - 5, - 3, - 5, - 4, 3, 4, - 3, 2, 0, - 4, - 3, - 3, - 2, 1, - 5, 4, - 4, - 1, - 6],
     [- 1, - 5, - 1, 5, 0, - 1, 1, 5, - 3, 0, - 4, - 4, 1, - 2, - 4, - 2, - 1, - 4, - 3, - 3, 0, - 4, 5, - 1, - 6],
     [- 1, - 1, - 1, - 1, - 1, - 1, - 1, - 1, - 1, - 1, - 1, - 1, - 1, - 1, - 1, - 1, - 1, - 1, - 1, - 1, - 1, - 1, - 1, - 1, - 6],
     [- 6, - 6, - 6, - 6, - 6, - 6, - 6, - 6, - 6, - 6, - 6, - 6, - 6, - 6, - 6, - 6, - 6, - 6, - 6, - 6, - 6, - 6, - 6, - 6, 0]]"

definition table_pam250 :: "score list list" where
  "table_pam250 =
    [[2, - 2, 1, 0, - 2, 0, 0, 0, 1, - 1, - 1, - 2, - 1, - 1, - 3, 1, 1, - 6, - 3, 0, 0, - 1, 0, - 1, - 8],
     [- 2, 12, - 2, - 5, - 4, - 4, - 5, - 5, - 3, - 3, - 2, - 6, - 5, - 5, - 4, - 3, 0, - 8, 0, - 2, - 4, - 5, - 5, - 1, - 8],
     [1, - 2, 3, 0, - 1, 0, 0, - 1, 0, - 1, 0, - 2, 0, - 1, - 3, 0, 1, - 5, - 3, 0, 0, - 1, - 1, - 1, - 8],
     [0, - 5, 0, 4, - 1, 1, 3, 2, 0, 1, - 2, - 3, 0, - 2, - 5, - 1, 0, - 7, - 4, - 2, 3, - 3, 3, - 1, - 8],
     [- 2, - 4, - 1, - 1, 6, 0, - 1, 1, - 3, 2, - 2, - 3, 3, 0, - 4, 0, 0, 2, - 4, - 2, - 1, - 3, 0, - 1, - 8],
     [0, - 4, 0, 1, 0, 2, 2, 1, 0, 2, - 2, - 3, 1, - 2, - 3, 0, 1, - 4, - 2, - 2, 2, - 3, 1, - 1, - 8],
     [0, - 5, 0, 3, - 1, 2, 4, 2, 1, 1, - 2, - 4, 0, - 3, - 6, - 1, 0, - 7, - 4, - 2, 3, - 3, 3, - 1, - 8],
     [0, - 5, - 1, 2, 1, 1, 2, 4, - 1, 3, - 2, - 2, 1, - 1, - 5, 0, - 1, - 5, - 4, - 2, 1, - 2, 3, - 1, - 8],
     [1, - 3, 0, 0, - 3, 0, 1, - 1, 5, - 2, - 3, - 4, - 2, - 3, - 5, 0, 1, - 7, - 5, - 1, 0, - 4, 0, - 1, - 8],
     [- 1, - 3, - 1, 1, 2, 2, 1, 3, - 2, 6, - 2, - 2, 0, - 2, - 2, 0, - 1, - 3, 0, - 2, 1, - 2, 2, - 1, - 8],
     [- 1, - 2, 0, - 2, - 2, - 2, - 2, - 2, - 3, - 2, 5, 2, - 2, 2, 1, - 2, - 1, - 5, - 1, 4, - 2, 3, - 2, - 1, - 8],
     [- 2, - 6, - 2, - 3, - 3, - 3, - 4, - 2, - 4, - 2, 2, 6, - 3, 4, 2, - 3, - 3, - 2, - 1, 2, - 3, 5, - 3, - 1, - 8],
     [- 1, - 5, 0, 0, 3, 1, 0, 1, - 2, 0, - 2, - 3, 5, 0, - 5, - 1, 0, - 3, - 4, - 2, 1, - 3, 0, - 1, - 8],
     [- 1, - 5, - 1, - 2, 0, - 2, - 3, - 1, - 3, - 2, 2, 4, 0, 6, 0, - 2, - 2, - 4, - 2, 2, - 2, 3, - 2, - 1, - 8],
     [- 3, - 4, - 3, - 5, - 4, - 3, - 6, - 5, - 5, - 2, 1, 2, - 5, 0, 9, - 5, - 3, 0, 7, - 1, - 4, 2, - 5, - 1, - 8],
     [1, - 3, 0, - 1, 0, 0, - 1, 0, 0, 0, - 2, - 3, - 1, - 2, - 5, 6, 1, - 6, - 5, - 1, - 1, - 2, 0, - 1, - 8],
     [1, 0, 1, 0, 0, 1, 0, - 1, 1, - 1, - 1, - 3, 0, - 2, - 3, 1, 2, - 2, - 3, - 1, 0, - 2, 0, - 1, - 8],
     [- 6, - 8, - 5, - 7, 2, - 4, - 7, - 5, - 7, - 3, - 5, - 2, - 3, - 4, 0, - 6, - 2, 17, 0, - 6, - 5, - 3, - 6, - 1, - 8],
     [- 3, 0, - 3, - 4, - 4, - 2, - 4, - 4, - 5, 0, - 1, - 1, - 4, - 2, 7, - 5, - 3, 0, 10, - 2, - 3, - 1, - 4, - 1, - 8],
     [0, - 2, 0, - 2, - 2, - 2, - 2, - 2, - 1, - 2, 4, 2, - 2, 2, - 1, - 1, - 1, - 6, - 2, 4, - 2, 2, - 2, - 1, - 8],
     [0, - 4, 0, 3, - 1, 2, 3, 1, 0, 1, - 2, - 3, 1, - 2, - 4, - 1, 0, - 5, - 3, - 2, 3, - 3, 2, - 1, - 8],
     [- 1, - 5, - 1, - 3, - 3, - 3, - 3, - 2, - 4, - 2, 3, 5, - 3, 3, 2, - 2, - 2, - 3, - 1, 2, - 3, 5, - 2, - 1, - 8],
     [0, - 5, - 1, 3, 0, 1, 3, 3, 0, 2, - 2, - 3, 0, - 2, - 5, 0, 0, - 6, - 4, - 2, 2, - 2, 3, - 1, - 8],
     [- 1, - 1, - 1, - 1, - 1, - 1, - 1, - 1, - 1, - 1, - 1, - 1, - 1, - 1, - 1, - 1, - 1, - 1, - 1, - 1, - 1, - 1, - 1, - 1, - 8],
     [- 8, - 8, - 8, - 8, - 8, - 8, - 8, - 8, - 8, - 8, - 8, - 8, - 8, - 8, - 8, - 8, - 8, - 8, - 8, - 8, - 8, - 8, - 8, - 8, 0]]"

definition table_data :: "score list list list" where
  "table_data = [table_default, table_blosum62, table_blosum45, table_blosum50,
                 table_blosum80, table_blosum90, table_pam250]"

text \<open>
  \<^verbatim>\<open>local_table\<close> links a table to its penalty; \<open>data\<close> is the index that the pointer
  \<^verbatim>\<open>&table_data[k]\<close> denotes.
\<close>

record local_table =
  data :: nat
  penalty :: score

text \<open>
  Modelled from the spec: \<^verbatim>\<open>dispatcher.hpp\<close> is not among the sources. A dispatcher maps
  names to values, and \<^verbatim>\<open>operator[]\<close> throws when the name is absent (the catalogue
  ``fails when a name is absent'', and \<^verbatim>\<open>make\<close> catches exactly that exception).
\<close>

definition dispatcher_at :: "(string \<times> 'a) list \<Rightarrow> string \<Rightarrow> error + 'a" where
  "dispatcher_at d key = (case map_of d key of None \<Rightarrow> Inl (NotFound key) | Some v \<Rightarrow> Inr v)"

definition table_dispatcher :: "(string \<times> local_table) list" where
  "table_dispatcher =
     [(''default'',  \<lparr>data = 0, penalty = 1\<rparr>),
      (''blosum62'', \<lparr>data = 1, penalty = 4\<rparr>),
      (''blosum45'', \<lparr>data = 2, penalty = 5\<rparr>),
      (''blosum50'', \<lparr>data = 3, penalty = 5\<rparr>),
      (''blosum80'', \<lparr>data = 4, penalty = 6\<rparr>),
      (''blosum90'', \<lparr>data = 5, penalty = 6\<rparr>),
      (''pam250'',   \<lparr>data = 6, penalty = 8\<rparr>)]"

text \<open>
  \<^verbatim>\<open>scoring_table::make\<close> (the name \<open>make\<close> alone is taken by the record package):
  look the name up, wrap the selected table; any exception of the lookup is replaced by
  the unknown-table exception.
\<close>

definition scoring_table_make :: "string \<Rightarrow> error + scoring_table" where
  "scoring_table_make name =
     (case dispatcher_at table_dispatcher name of
        Inr selected \<Rightarrow> Inr \<lparr>m_contents = table_data ! data selected, m_penalty = penalty selected\<rparr>
      | Inl e \<Rightarrow> Inl (UnknownTable name))"

definition canonical_names :: "string list" where
  "canonical_names = [''default'', ''blosum62'', ''blosum45'', ''blosum50'',
                      ''blosum80'', ''blosum90'', ''pam250'']"

text \<open>
  \<^verbatim>\<open>scoring_table::operator[](const cartesian<2>& offset)\<close> reads
  \<^verbatim>\<open>(*m_contents)[offset[0]][offset[1]]\<close>; the array has 25 rows and 25 columns.
\<close>

definition table_at :: "scoring_table \<Rightarrow> nat \<times> nat \<Rightarrow> score option" where
  "table_at tb offset =
     (if fst offset < 25 \<and> snd offset < 25
      then Some (m_contents tb ! fst offset ! snd offset) else None)"


section \<open>Sequences\<close>

text \<open>
  A sequence is the list of its symbol codes; \<^verbatim>\<open>length()\<close> is the length of the list and
  \<^verbatim>\<open>operator[]\<close> reads a position.
\<close>

type_synonym symbol = nat
type_synonym sequence = "symbol list"

text \<open>
  Modelled from the spec: the sequence encoder is not among the sources. Codes follow the
  alphabet of the spec, which is the column order of the tables; \<^verbatim>\<open>sequence::padding\<close> is
  the last symbol \<^verbatim>\<open>*\<close>, and characters outside the alphabet fold to \<^verbatim>\<open>X\<close>. The encoder
  also pads every sequence to a word boundary; \<open>encode\<close> does not, and padding is appended
  explicitly where a statement is about it.
\<close>

definition padding :: symbol where
  "padding = 24"

definition alphabet :: string where
  "alphabet = ''ACTGRNDQEHILKMFPSWYVBJZX*''"

fun index_of :: "'a \<Rightarrow> 'a list \<Rightarrow> nat" where
  "index_of x [] = 0"
| "index_of x (y # ys) = (if x = y then 0 else Suc (index_of x ys))"

definition encode_symbol :: "char \<Rightarrow> symbol" where
  "encode_symbol ch = (if ch \<in> set alphabet then index_of ch alphabet else 23)"

definition encode :: "string \<Rightarrow> sequence" where
  "encode str = map encode_symbol str"


section \<open>Sequential Needleman-Wunsch backend\<close>

text \<open>
  \<^verbatim>\<open>align_pair\<close> keeps one line of \<^verbatim>\<open>two.length() + 1\<close> scores. A result \<open>None\<close> of the
  functions below means that an access left its buffer or that a score became infinite.

  \<open>penalty_times tb i\<close> is the expression \<^verbatim>\<open>i * -table.penalty()\<close>: the position is converted
  to \<^verbatim>\<open>float\<close> and multiplied by the negated penalty.
\<close>

definition penalty_times :: "scoring_table \<Rightarrow> nat \<Rightarrow> score option" where
  "penalty_times tb i =
     do {
       fi \<leftarrow> f32_of_nat i;
       f32_mul fi (- m_penalty tb)
     }"

text \<open>
  The body of \<^verbatim>\<open>if(two[j - 1] != sequence::padding)\<close>, in the order of the source:
  \<^verbatim>\<open>insertd = value - table.penalty()\<close>, \<^verbatim>\<open>removed = line[j] - table.penalty()\<close>,
  \<^verbatim>\<open>matched = done + table[{one[i], two[j - 1]}]\<close>, and
  \<^verbatim>\<open>utils::max(matched, utils::max(insertd, removed))\<close>. Here \<open>diag\<close> is the variable
  \<^verbatim>\<open>done\<close> of the source, \<open>left\<close> is \<^verbatim>\<open>line[j - 1]\<close> and \<open>up\<close> is \<^verbatim>\<open>line[j]\<close> before the write.
\<close>

definition cell :: "scoring_table \<Rightarrow> symbol \<Rightarrow> symbol \<Rightarrow> score \<Rightarrow> score \<Rightarrow> score \<Rightarrow> score option" where
  "cell tb c tj diag left up =
     do {
       insertd \<leftarrow> f32_sub left (m_penalty tb);
       removed \<leftarrow> f32_sub up (m_penalty tb);
       sub \<leftarrow> table_at tb (c, tj);
       matched \<leftarrow> f32_add diag sub;
       Some (max matched (max insertd removed))
     }"

text \<open>
  The inner loop over \<^verbatim>\<open>j = 1 .. two.length()\<close>; \<open>val\<close> is the variable \<^verbatim>\<open>value\<close> of the
  source, which stays \<^verbatim>\<open>line[j - 1]\<close> on a padding symbol.
\<close>

function inner :: "scoring_table \<Rightarrow> symbol \<Rightarrow> sequence \<Rightarrow> nat \<Rightarrow> score \<Rightarrow> score list
    \<Rightarrow> score list option" where
  "inner tb c two j diag line =
     (if j \<le> length two then
        do {
          left \<leftarrow> rd line (j - 1);
          tj \<leftarrow> rd two (j - 1);
          up \<leftarrow> rd line j;
          val \<leftarrow> (if tj \<noteq> padding then cell tb c tj diag left up else Some left);
          line' \<leftarrow> wr line j val;
          inner tb c two (j + 1) up line'
        }
      else Some line)"
  by pat_completeness auto
termination
  by (relation "measure (\<lambda>(tb, c, two, j, diag, line). Suc (length two) - j)") auto

declare inner.simps [simp del]

text \<open>
  The outer loop over the rows: it stops at the first padding symbol of \<^verbatim>\<open>one\<close>, and
  otherwise sets \<^verbatim>\<open>line[0] = (i + 1) * -table.penalty()\<close> and runs the inner loop.
\<close>

function outer :: "scoring_table \<Rightarrow> sequence \<Rightarrow> sequence \<Rightarrow> nat \<Rightarrow> score list
    \<Rightarrow> score list option" where
  "outer tb one two i line =
     (if i < length one then
        do {
          c \<leftarrow> rd one i;
          if c = padding then Some line
          else
            do {
              diag \<leftarrow> rd line 0;
              first \<leftarrow> penalty_times tb (i + 1);
              line1 \<leftarrow> wr line 0 first;
              line2 \<leftarrow> inner tb c two 1 diag line1;
              outer tb one two (i + 1) line2
            }
        }
      else Some line)"
  by pat_completeness auto
termination
  by (relation "measure (\<lambda>(tb, one, two, i, line). length one - i)") auto

declare outer.simps [simp del]

text \<open>
  \<^verbatim>\<open>align_pair\<close>: line 0 is filled with \<^verbatim>\<open>line[i] = i * -table.penalty()\<close> for
  \<^verbatim>\<open>i = 0 .. two.length()\<close>, the rows are run, and \<^verbatim>\<open>line[two.length()]\<close> is returned.
\<close>

definition align_pair :: "scoring_table \<Rightarrow> sequence \<Rightarrow> sequence \<Rightarrow> score option" where
  "align_pair tb one two =
     do {
       line0 \<leftarrow> those (map (penalty_times tb) [0 ..< length two + 1]);
       line \<leftarrow> outer tb one two 0 line0;
       rd line (length two)
     }"

text \<open>
  The caller \<^verbatim>\<open>align(pairs, db, table)\<close> of the same file (renamed, since \<open>align\<close> is the
  size helper above): each pair is aligned with the longer sequence first.
\<close>

definition align_pairs :: "(nat \<times> nat) list \<Rightarrow> sequence list \<Rightarrow> scoring_table \<Rightarrow> score list option" where
  "align_pairs pairs db tb =
     those (map (\<lambda>pr.
       do {
         one \<leftarrow> rd db (fst pr);
         two \<leftarrow> rd db (snd pr);
         align_pair tb (if length one > length two then one else two)
                       (if length one > length two then two else one)
       }) pairs)"

text \<open>
  The recurrence as the specification words it, to compare \<open>align_pair\<close> with: row 0 and
  column 0 hold \<open>- i \<sqdot> p\<close>, and cell \<open>(i, j)\<close> is the maximum of
  \<open>(i - 1, j - 1) + M[s[i - 1], t[j - 1]]\<close>, \<open>(i - 1, j) - p\<close> and \<open>(i, j - 1) - p\<close>.
\<close>

fun nw :: "scoring_table \<Rightarrow> sequence \<Rightarrow> sequence \<Rightarrow> nat \<Rightarrow> nat \<Rightarrow> score" where
  "nw tb s t 0 j = - (int j * m_penalty tb)"
| "nw tb s t (Suc i) 0 = - (int (Suc i) * m_penalty tb)"
| "nw tb s t (Suc i) (Suc j) =
     max (nw tb s t i j + m_contents tb ! (s ! i) ! (t ! j))
         (max (nw tb s t i (Suc j) - m_penalty tb) (nw tb s t (Suc i) j - m_penalty tb))"


section \<open>Pipeline runner\<close>

text \<open>
  A \<^verbatim>\<open>pipe\<close> is a pointer to a conduit, empty at the start of \<^verbatim>\<open>execute\<close>
  (\<^verbatim>\<open>pipeline::pipe {}\<close>): \<open>None\<close> is the empty pipe. A module offers \<^verbatim>\<open>check\<close>,
  \<^verbatim>\<open>run\<close> and \<^verbatim>\<open>name\<close>. The runner's loops are instrumented with a trace of the calls
  they make, \<open>Checked i\<close> for \<^verbatim>\<open>modules[i]->check(io)\<close> and \<open>Ran i p\<close> for
  \<^verbatim>\<open>modules[i]->run(io, pipe)\<close> entered with pipe \<open>p\<close>, so that the order of the calls and the
  absence of any module body can be stated.
\<close>

type_synonym 'c pipe = "'c option"

record ('io, 'c) module =
  check :: "'io \<Rightarrow> bool"
  run :: "'io \<Rightarrow> 'c pipe \<Rightarrow> 'c pipe"
  name :: string

datatype 'c event = Checked nat | Ran nat "'c pipe"

function verify :: "('io, 'c) module list \<Rightarrow> 'io \<Rightarrow> nat \<Rightarrow> 'c event list \<Rightarrow> bool \<times> 'c event list" where
  "verify modules io i trace =
     (if i < length modules then
        (if \<not> check (modules ! i) io then (False, trace @ [Checked i])
         else verify modules io (i + 1) (trace @ [Checked i]))
      else (True, trace))"
  by pat_completeness auto
termination
  by (relation "measure (\<lambda>(modules, io, i, trace). length modules - i)") auto

declare verify.simps [simp del]

function execute :: "('io, 'c) module list \<Rightarrow> 'io \<Rightarrow> nat \<Rightarrow> 'c pipe \<Rightarrow> 'c event list
    \<Rightarrow> 'c pipe \<times> 'c event list" where
  "execute modules io i pipe trace =
     (if i < length modules then
        execute modules io (i + 1) (run (modules ! i) io pipe) (trace @ [Ran i pipe])
      else (pipe, trace))"
  by pat_completeness auto
termination
  by (relation "measure (\<lambda>(modules, io, i, pipe, trace). length modules - i)") auto

declare execute.simps [simp del]

definition runner_run :: "('io, 'c) module list \<Rightarrow> 'io \<Rightarrow> (error + 'c pipe) \<times> 'c event list" where
  "runner_run modules io =
     (case verify modules io 0 [] of
        (False, trace) \<Rightarrow> (Inl PipelineVerificationFailed, trace)
      | (True, trace) \<Rightarrow> (case execute modules io 0 None trace of (pipe, trace') \<Rightarrow> (Inr pipe, trace')))"

text \<open>
  The conduit handed from stage to stage, as the specification words it: the first stage
  receives the empty pipe, and stage \<open>i + 1\<close> receives what stage \<open>i\<close> returned.
\<close>

fun conduit_after :: "('io, 'c) module list \<Rightarrow> 'io \<Rightarrow> nat \<Rightarrow> 'c pipe" where
  "conduit_after modules io 0 = None"
| "conduit_after modules io (Suc i) = run (modules ! i) io (conduit_after modules io i)"

text \<open>Inputs used to instantiate the results below.\<close>

definition blosum62 :: scoring_table where
  "blosum62 = \<lparr>m_contents = table_blosum62, m_penalty = 4\<rparr>"

definition blosum45 :: scoring_table where
  "blosum45 = \<lparr>m_contents = table_blosum45, m_penalty = 5\<rparr>"

definition demo_matrix :: "int manager" where
  "demo_matrix = \<lparr>buf = [10, 20, 30], m_count = 3\<rparr>"

definition demo_modules :: "(bool, nat) module list" where
  "demo_modules =
     [\<lparr>check = (\<lambda>io. True), run = (\<lambda>io p. Some 1), name = ''load''\<rparr>,
      \<lparr>check = (\<lambda>io. io), run = (\<lambda>io p. map_option (\<lambda>n. n + 10) p), name = ''pairwise''\<rparr>,
      \<lparr>check = (\<lambda>io. True), run = (\<lambda>io p. map_option (\<lambda>n. 2 * n) p), name = ''phylogeny''\<rparr>]"

section \<open>Results: size helpers\<close>

lemma trunc_div_nonneg:
  assumes "0 \<le> a" "0 < b"
  shows "trunc_div a b = a div b"
proof (cases "a = 0")
  case True
  then show ?thesis by (simp add: trunc_div_def)
next
  case False
  with assms have "0 < a" by simp
  with assms show ?thesis by (simp add: trunc_div_def)
qed

lemma c_quot_nonneg:
  assumes "0 \<le> a" "0 < b"
  shows "c_quot a b = Some (a div b)"
  using assms by (simp add: c_quot_def INT_MIN_def trunc_div_nonneg)

lemma c_rem_nonneg:
  assumes "0 \<le> a" "0 < b"
  shows "c_rem a b = Some (a mod b)"
  using assms
  by (simp add: c_rem_def INT_MIN_def trunc_div_nonneg minus_mult_div_eq_mod)

lemma ceiling_as_div:
  fixes a b :: int
  assumes "0 < b"
  shows "\<lceil>real_of_int a / real_of_int b\<rceil> = a div b + (if a mod b \<noteq> 0 then 1 else 0)"
proof -
  have "\<lceil>real_of_int a / real_of_int b\<rceil> = - ((- a) div b)"
    by (simp add: ceiling_divide_eq_div)
  also have "\<dots> = a div b + (if a mod b \<noteq> 0 then 1 else 0)"
    using assms by (simp add: zdiv_zminus1_eq_if)
  finally show ?thesis .
qed

lemma divceil_le_dividend:
  fixes a b :: int
  assumes "0 \<le> a" "0 < b"
  shows "a div b + (if a mod b \<noteq> 0 then 1 else 0) \<le> a"
proof -
  have dm: "b * (a div b) + a mod b = a" by simp
  have q0: "0 \<le> a div b" using assms by (simp add: pos_imp_zdiv_nonneg_iff)
  have "1 * (a div b) \<le> b * (a div b)"
    using assms q0 by (intro mult_right_mono) simp_all
  then have qb: "a div b \<le> b * (a div b)" by simp
  have m0: "0 \<le> a mod b" using assms by simp
  show ?thesis
  proof (cases "a mod b = 0")
    case True
    with dm qb show ?thesis by simp
  next
    case False
    with m0 have "1 \<le> a mod b" by simp
    with dm qb have "a div b + 1 \<le> a" by linarith
    with False show ?thesis by simp
  qed
qed

lemma divceil_value:
  assumes "0 \<le> a" "a \<le> INT_MAX" "0 < b"
  shows "divceil a b = Some (a div b + (if a mod b \<noteq> 0 then 1 else 0))"
proof -
  have up: "a div b + (if a mod b \<noteq> 0 then 1 else 0) \<le> a"
    using assms by (intro divceil_le_dividend)
  have lo: "0 \<le> a div b"
    using assms by (simp add: pos_imp_zdiv_nonneg_iff)
  have "c_int (a div b + (if a mod b \<noteq> 0 then 1 else 0))
        = Some (a div b + (if a mod b \<noteq> 0 then 1 else 0))"
    using up lo assms by (auto simp: c_int_def INT_MIN_def)
  then show ?thesis
    using assms by (simp add: divceil_def c_quot_nonneg c_rem_nonneg)
qed

lemma round_up_multiple:
  fixes a b :: int
  assumes "0 < b"
  shows "b dvd (a div b + (if a mod b \<noteq> 0 then 1 else 0)) * b"
    and "a \<le> (a div b + (if a mod b \<noteq> 0 then 1 else 0)) * b"
    and "b dvd m \<Longrightarrow> a \<le> m \<Longrightarrow> (a div b + (if a mod b \<noteq> 0 then 1 else 0)) * b \<le> m"
proof -
  show "b dvd (a div b + (if a mod b \<noteq> 0 then 1 else 0)) * b" by simp
  have dm: "a = (a div b) * b + a mod b" by simp
  have mb: "a mod b < b" "0 \<le> a mod b" using assms by simp_all
  show "a \<le> (a div b + (if a mod b \<noteq> 0 then 1 else 0)) * b"
  proof (cases "a mod b = 0")
    case True
    with dm show ?thesis by simp
  next
    case False
    have "(a div b + 1) * b = (a div b) * b + b" by (simp add: algebra_simps)
    moreover have "(a div b) * b + a mod b = a" by simp
    ultimately have "a \<le> (a div b + 1) * b" using mb by linarith
    with False show ?thesis by simp
  qed
  assume "b dvd m" "a \<le> m"
  then obtain k where k: "m = b * k" by (auto simp: dvd_def)
  show "(a div b + (if a mod b \<noteq> 0 then 1 else 0)) * b \<le> m"
  proof (cases "a mod b = 0")
    case True
    have "(a div b) * b \<le> a" using dm mb by linarith
    with True \<open>a \<le> m\<close> show ?thesis by simp
  next
    case False
    have "a div b < k"
    proof (rule ccontr)
      assume "\<not> a div b < k"
      then have "k \<le> a div b" by simp
      then have "b * k \<le> b * (a div b)" using assms by simp
      moreover have "b * (a div b) + a mod b = a" by simp
      then have "b * (a div b) \<le> a" using mb by linarith
      ultimately have "a = b * k" using k \<open>a \<le> m\<close> by linarith
      then have "a mod b = 0" by simp
      with False show False by simp
    qed
    then have "a div b + 1 \<le> k" by simp
    then have "(a div b + 1) * b \<le> k * b" using assms by simp
    with k False show ?thesis by (simp add: mult.commute)
  qed
qed

text \<open>
  C10 (as amended). For \<open>0 \<le> a\<close> and \<open>0 < b\<close> within \<^verbatim>\<open>int\<close>, \<open>divceil a b\<close> is the ceiling of
  \<open>a / b\<close>. Whenever that ceiling times \<open>b\<close> still fits in an \<^verbatim>\<open>int\<close>, \<open>align a b\<close> returns it,
  and it is the smallest multiple of \<open>b\<close> that is at least \<open>a\<close>.
\<close>

theorem divceil_align_spec:
  assumes "0 \<le> a" "a \<le> INT_MAX" "0 < b" "b \<le> INT_MAX"
  shows "divceil a b = Some \<lceil>real_of_int a / real_of_int b\<rceil>
       \<and> (\<lceil>real_of_int a / real_of_int b\<rceil> * b \<le> INT_MAX \<longrightarrow>
            align a b = Some (\<lceil>real_of_int a / real_of_int b\<rceil> * b)
          \<and> b dvd \<lceil>real_of_int a / real_of_int b\<rceil> * b
          \<and> a \<le> \<lceil>real_of_int a / real_of_int b\<rceil> * b
          \<and> (\<forall>m. b dvd m \<and> a \<le> m \<longrightarrow> \<lceil>real_of_int a / real_of_int b\<rceil> * b \<le> m))"
proof (intro conjI impI)
  let ?c = "a div b + (if a mod b \<noteq> 0 then 1 else 0)"
  have c: "\<lceil>real_of_int a / real_of_int b\<rceil> = ?c"
    using assms by (intro ceiling_as_div)
  show dc: "divceil a b = Some \<lceil>real_of_int a / real_of_int b\<rceil>"
    unfolding c using assms by (intro divceil_value)
  have ge: "a \<le> ?c * b" using assms by (intro round_up_multiple)
  then show "a \<le> \<lceil>real_of_int a / real_of_int b\<rceil> * b" unfolding c .
  show "b dvd \<lceil>real_of_int a / real_of_int b\<rceil> * b" by simp
  show "\<forall>m. b dvd m \<and> a \<le> m \<longrightarrow> \<lceil>real_of_int a / real_of_int b\<rceil> * b \<le> m"
    unfolding c using round_up_multiple(3) [OF \<open>0 < b\<close>] by (intro allI impI) (elim conjE)
  assume fit: "\<lceil>real_of_int a / real_of_int b\<rceil> * b \<le> INT_MAX"
  have "INT_MIN \<le> ?c * b" using ge assms by (simp add: INT_MIN_def)
  with fit have "c_int (?c * b) = Some (?c * b)"
    unfolding c by (simp add: c_int_def)
  then show "align a b = Some (\<lceil>real_of_int a / real_of_int b\<rceil> * b)"
    using dc unfolding c by (simp add: align_def)
qed

theorem divceil_align_spec_witness:
  "(0::int) \<le> 7 \<and> 7 \<le> INT_MAX \<and> (0::int) < 4 \<and> 4 \<le> INT_MAX
   \<and> \<lceil>real_of_int 7 / real_of_int 4\<rceil> * 4 \<le> INT_MAX
   \<and> divceil 7 4 = Some 2 \<and> align 7 4 = Some 8"
proof -
  have h: "(0::int) \<le> 7" "7 \<le> INT_MAX" "(0::int) < 4" "4 \<le> INT_MAX"
    by (simp_all add: INT_MAX_def)
  have c: "\<lceil>real_of_int 7 / real_of_int 4\<rceil> = 2" by simp
  have fit: "\<lceil>real_of_int 7 / real_of_int 4\<rceil> * 4 \<le> INT_MAX"
    unfolding c by (simp add: INT_MAX_def)
  from divceil_align_spec [OF h] fit
  have "divceil 7 4 = Some \<lceil>real_of_int 7 / real_of_int 4\<rceil>"
    "align 7 4 = Some (\<lceil>real_of_int 7 / real_of_int 4\<rceil> * 4)"
    by simp_all
  then have "divceil 7 4 = Some 2" "align 7 4 = Some 8"
    unfolding c by simp_all
  with h fit show ?thesis by (intro conjI)
qed

text \<open>
  The smallest multiple of 2 that is at least \<open>INT_MAX\<close> is \<open>2147483648\<close>, which is no
  \<^verbatim>\<open>int\<close>: the product of \<^verbatim>\<open>align\<close> overflows there.
\<close>

theorem align_overflow_counterexample:
  "align 2147483647 2 = None \<and> align 2147483647 2 \<noteq> Some 2147483648"
  by (simp add: align_def divceil_def c_quot_def c_rem_def c_int_def INT_MIN_def INT_MAX_def
      trunc_div_def)


section \<open>Results: distance matrix\<close>

lemma nchoose_Suc: "nchoose (Suc n) = nchoose n + n"
proof (cases n)
  case 0
  then show ?thesis by (simp add: nchoose_def)
next
  case (Suc k)
  have "Suc (Suc k) * Suc k = Suc k * k + 2 * Suc k" by simp
  then have "Suc (Suc k) * Suc k div 2 = Suc k * k div 2 + Suc k"
    by (simp only: div_mult_self2 [of 2 "Suc k * k" "Suc k"])
  with Suc show ?thesis by (simp add: nchoose_def)
qed

lemma nchoose_mono: "a \<le> b \<Longrightarrow> nchoose a \<le> nchoose b"
  by (induction b) (auto simp: nchoose_Suc le_Suc_eq)

lemma offset_in_range:
  assumes "mn < mx" "mx < n"
  shows "nchoose mx + mn < nchoose n"
proof -
  have "nchoose mx + mn < nchoose (Suc mx)"
    using assms by (simp add: nchoose_Suc)
  also have "\<dots> \<le> nchoose n"
    using assms by (intro nchoose_mono) simp
  finally show ?thesis .
qed

text \<open>
  C3. In a distance matrix over \<open>N\<close> sequences (a buffer of \<open>N (N - 1) / 2\<close> cells), for
  \<open>min < max < N\<close> the score of the pair \<open>(max, min)\<close> is the cell at offset
  \<open>max \<sqdot> (max - 1) / 2 + min\<close>, which lies inside the buffer, and a diagonal access yields 0.
\<close>

theorem manager_at_offset:
  assumes "length (buf m) = nchoose (m_count m)" "mn < mx" "mx < m_count m"
  shows "manager_at m (mx, mn) = Some (buf m ! (mx * (mx - 1) div 2 + mn))
       \<and> mx * (mx - 1) div 2 + mn < length (buf m)
       \<and> manager_at m (mx, mx) = Some 0 \<and> manager_at m (mn, mn) = Some 0"
proof -
  have "nchoose mx + mn < length (buf m)"
    using assms offset_in_range [of mn mx "m_count m"] by simp
  then show ?thesis
    using assms by (simp add: manager_at_def rd_def nchoose_def Let_def)
qed

theorem manager_at_offset_witness:
  "length (buf demo_matrix) = nchoose (m_count demo_matrix) \<and> (1::nat) < 2 \<and> 2 < m_count demo_matrix
   \<and> manager_at demo_matrix (2, 1) = Some 30 \<and> manager_at demo_matrix (2, 2) = Some 0"
proof -
  have h: "length (buf demo_matrix) = nchoose (m_count demo_matrix)" "(1::nat) < 2"
    "2 < m_count demo_matrix"
    by (simp_all add: demo_matrix_def nchoose_def)
  from manager_at_offset [OF h]
  have "manager_at demo_matrix (2, 1) = Some (buf demo_matrix ! (2 * (2 - 1) div 2 + 1))"
    "manager_at demo_matrix (2, 2) = Some 0"
    by simp_all
  moreover have "buf demo_matrix ! (2 * (2 - 1) div 2 + 1) = 30"
    by (simp add: demo_matrix_def)
  ultimately show ?thesis using h by simp
qed

text \<open>
  C6. The accessor is symmetric and zero on the diagonal: entry \<open>(i, j)\<close> reads the same as
  entry \<open>(j, i)\<close>, and entry \<open>(i, i)\<close> is 0.
\<close>

theorem manager_at_symmetric:
  "manager_at m (i, j) = manager_at m (j, i) \<and> manager_at m (i, i) = Some 0"
  by (simp add: manager_at_def Let_def min.commute max.commute)


section \<open>Results: neighbour-joining reducer\<close>

text \<open>
  C4 (as amended). The reducer returns one of its two candidates, the one with the larger
  distance; when the distances are equal it returns its second argument, whatever the
  indices are.
\<close>

theorem closest_larger_distance:
  "distance (closest a b) = max (distance a) (distance b)
   \<and> (closest a b = a \<or> closest a b = b)
   \<and> (distance a = distance b \<longrightarrow> closest a b = b)"
  by (auto simp: closest_def max_def)

theorem closest_larger_distance_witness:
  "distance \<lparr>ref1 = 0, ref2 = 1, distance = (5::int)\<rparr> = distance \<lparr>ref1 = 2, ref2 = 3, distance = (5::int)\<rparr>
   \<and> closest \<lparr>ref1 = 0, ref2 = 1, distance = (5::int)\<rparr> \<lparr>ref1 = 2, ref2 = 3, distance = 5\<rparr>
       = \<lparr>ref1 = 2, ref2 = 3, distance = 5\<rparr>
   \<and> distance (closest \<lparr>ref1 = 0, ref2 = 1, distance = (7::int)\<rparr> \<lparr>ref1 = 2, ref2 = 3, distance = 5\<rparr>) = 7"
  using closest_larger_distance [of "\<lparr>ref1 = 0, ref2 = 1, distance = (5::int)\<rparr>"
      "\<lparr>ref1 = 2, ref2 = 3, distance = 5\<rparr>"]
    closest_larger_distance [of "\<lparr>ref1 = 0, ref2 = 1, distance = (7::int)\<rparr>"
      "\<lparr>ref1 = 2, ref2 = 3, distance = 5\<rparr>"]
  by simp

text \<open>
  On equal distances the candidate with the larger indices wins when it is the second
  argument: no tie-break by smaller \<open>u\<close>, then smaller \<open>v\<close>.
\<close>

theorem closest_tie_counterexample:
  "closest \<lparr>ref1 = 0, ref2 = 1, distance = (5::int)\<rparr> \<lparr>ref1 = 2, ref2 = 3, distance = 5\<rparr>
   = \<lparr>ref1 = 2, ref2 = 3, distance = 5\<rparr>"
  by (simp add: closest_def)

text \<open>
  C5 (as amended). The reducer is a function of its two arguments and is associative. It is
  commutative on candidates whose distances differ; on equal distances it returns its second
  argument, so the two orders return different candidates unless the candidates are equal.
\<close>

theorem closest_assoc_comm:
  "closest (closest a b) c = closest a (closest b c)
   \<and> (distance a \<noteq> distance b \<longrightarrow> closest a b = closest b a)
   \<and> (distance a = distance b \<longrightarrow> closest a b = b \<and> closest b a = a)"
  by (auto simp: closest_def)

theorem closest_assoc_comm_witness:
  "distance \<lparr>ref1 = 0, ref2 = 1, distance = (7::int)\<rparr> \<noteq> distance \<lparr>ref1 = 2, ref2 = 3, distance = (5::int)\<rparr>
   \<and> closest \<lparr>ref1 = 0, ref2 = 1, distance = (7::int)\<rparr> \<lparr>ref1 = 2, ref2 = 3, distance = 5\<rparr>
       = closest \<lparr>ref1 = 2, ref2 = 3, distance = 5\<rparr> \<lparr>ref1 = 0, ref2 = 1, distance = 7\<rparr>
   \<and> distance \<lparr>ref1 = 0, ref2 = 1, distance = (5::int)\<rparr> = distance \<lparr>ref1 = 2, ref2 = 3, distance = (5::int)\<rparr>
   \<and> closest \<lparr>ref1 = 2, ref2 = 3, distance = (5::int)\<rparr> \<lparr>ref1 = 0, ref2 = 1, distance = 5\<rparr>
       = \<lparr>ref1 = 0, ref2 = 1, distance = 5\<rparr>"
  using closest_assoc_comm [of "\<lparr>ref1 = 0, ref2 = 1, distance = (7::int)\<rparr>"
      "\<lparr>ref1 = 2, ref2 = 3, distance = 5\<rparr>"]
    closest_assoc_comm [of "\<lparr>ref1 = 0, ref2 = 1, distance = (5::int)\<rparr>"
      "\<lparr>ref1 = 2, ref2 = 3, distance = 5\<rparr>"]
  by simp

theorem closest_commute_counterexample:
  "closest \<lparr>ref1 = 0, ref2 = 1, distance = (5::int)\<rparr> \<lparr>ref1 = 2, ref2 = 3, distance = 5\<rparr>
   \<noteq> closest \<lparr>ref1 = 2, ref2 = 3, distance = 5\<rparr> \<lparr>ref1 = 0, ref2 = 1, distance = (5::int)\<rparr>"
  by (simp add: closest_def)


section \<open>Results: scoring-table catalogue\<close>

lemma make_known:
  "scoring_table_make ''default''  = Inr \<lparr>m_contents = table_default,  m_penalty = 1\<rparr>"
  "scoring_table_make ''blosum62'' = Inr \<lparr>m_contents = table_blosum62, m_penalty = 4\<rparr>"
  "scoring_table_make ''blosum45'' = Inr \<lparr>m_contents = table_blosum45, m_penalty = 5\<rparr>"
  "scoring_table_make ''blosum50'' = Inr \<lparr>m_contents = table_blosum50, m_penalty = 5\<rparr>"
  "scoring_table_make ''blosum80'' = Inr \<lparr>m_contents = table_blosum80, m_penalty = 6\<rparr>"
  "scoring_table_make ''blosum90'' = Inr \<lparr>m_contents = table_blosum90, m_penalty = 6\<rparr>"
  "scoring_table_make ''pam250''   = Inr \<lparr>m_contents = table_pam250,   m_penalty = 8\<rparr>"
  by (simp_all add: scoring_table_make_def dispatcher_at_def table_dispatcher_def table_data_def)

lemma make_unknown:
  assumes "nm \<notin> set canonical_names"
  shows "scoring_table_make nm = Inl (UnknownTable nm)"
  using assms
  by (simp add: scoring_table_make_def dispatcher_at_def table_dispatcher_def canonical_names_def)

lemma make_succeeds_iff:
  "(\<exists>tb. scoring_table_make nm = Inr tb) \<longleftrightarrow> nm \<in> set canonical_names"
proof
  assume "\<exists>tb. scoring_table_make nm = Inr tb"
  then show "nm \<in> set canonical_names"
    by (cases "nm \<in> set canonical_names") (simp_all add: make_unknown)
next
  assume "nm \<in> set canonical_names"
  then have "nm = ''default'' \<or> nm = ''blosum62'' \<or> nm = ''blosum45''
    \<or> nm = ''blosum50'' \<or> nm = ''blosum80'' \<or> nm = ''blosum90'' \<or> nm = ''pam250''"
    by (simp only: canonical_names_def list.set insert_iff empty_iff simp_thms)
  then show "\<exists>tb. scoring_table_make nm = Inr tb"
    by (elim disjE) (simp_all only: make_known sum.inject simp_thms)
qed

text \<open>
  C7. \<^verbatim>\<open>scoring_table::make\<close> succeeds exactly for the seven canonical names and returns the
  table and penalty registered under the name; for every other name it fails with the
  unknown-table exception; the table made for \<^verbatim>\<open>"blosum62"\<close> has penalty 4.
\<close>

theorem make_catalog:
  "((\<exists>tb. scoring_table_make nm = Inr tb) \<longleftrightarrow> nm \<in> set canonical_names)
   \<and> (nm \<notin> set canonical_names \<longrightarrow> scoring_table_make nm = Inl (UnknownTable nm))
   \<and> scoring_table_make ''default''  = Inr \<lparr>m_contents = table_data ! 0, m_penalty = 1\<rparr>
   \<and> scoring_table_make ''blosum62'' = Inr \<lparr>m_contents = table_data ! 1, m_penalty = 4\<rparr>
   \<and> scoring_table_make ''blosum45'' = Inr \<lparr>m_contents = table_data ! 2, m_penalty = 5\<rparr>
   \<and> scoring_table_make ''blosum50'' = Inr \<lparr>m_contents = table_data ! 3, m_penalty = 5\<rparr>
   \<and> scoring_table_make ''blosum80'' = Inr \<lparr>m_contents = table_data ! 4, m_penalty = 6\<rparr>
   \<and> scoring_table_make ''blosum90'' = Inr \<lparr>m_contents = table_data ! 5, m_penalty = 6\<rparr>
   \<and> scoring_table_make ''pam250''   = Inr \<lparr>m_contents = table_data ! 6, m_penalty = 8\<rparr>
   \<and> map_sum id m_penalty (scoring_table_make ''blosum62'') = Inr 4"
  using make_succeeds_iff [of nm] make_unknown [of nm]
  by (simp add: make_known table_data_def)

theorem make_catalog_witness:
  "''blosum99'' \<notin> set canonical_names
   \<and> scoring_table_make ''blosum99'' = Inl (UnknownTable ''blosum99'')
   \<and> ''pam250'' \<in> set canonical_names \<and> (\<exists>tb. scoring_table_make ''pam250'' = Inr tb)"
  using make_catalog [of "''blosum99''"] make_catalog [of "''pam250''"]
  by (simp add: canonical_names_def)


section \<open>Results: sequential Needleman-Wunsch backend\<close>

lemma rd_Some [simp]: "i < length xs \<Longrightarrow> rd xs i = Some (xs ! i)"
  by (simp add: rd_def)

lemma wr_Some [simp]: "i < length xs \<Longrightarrow> wr xs i v = Some (xs[i := v])"
  by (simp add: wr_def)

lemma table_at_Some [simp]: "a < 25 \<Longrightarrow> b < 25 \<Longrightarrow> table_at tb (a, b) = Some (m_contents tb ! a ! b)"
  by (simp add: table_at_def)

lemma f32_round_exact: "\<bar>x\<bar> \<le> 2 ^ 24 \<Longrightarrow> f32_round x = Some x"
  by (simp add: f32_round_def)

lemma scaled_bound:
  fixes B :: int
  assumes "0 \<le> B" "a \<le> m" "b \<le> n" "(int m + int n) * B \<le> 2 ^ 24"
  shows "(int a + int b) * B \<le> 2 ^ 24"
proof -
  have "int a + int b \<le> int m + int n" using assms(2,3) by simp
  then have "(int a + int b) * B \<le> (int m + int n) * B"
    using assms(1) by (rule mult_right_mono)
  with assms(4) show ?thesis by simp
qed

lemma f32_add_exact:
  fixes B :: int
  assumes "\<bar>x\<bar> \<le> c * B" "\<bar>y\<bar> \<le> B" "(c + 1) * B \<le> 2 ^ 24"
  shows "f32_add x y = Some (x + y)"
proof -
  have "\<bar>x + y\<bar> \<le> \<bar>x\<bar> + \<bar>y\<bar>" by (rule abs_triangle_ineq)
  also have "\<dots> \<le> c * B + B" using assms(1,2) by simp
  also have "\<dots> = (c + 1) * B" by (simp add: algebra_simps)
  finally have "\<bar>x + y\<bar> \<le> 2 ^ 24" using assms(3) by simp
  then show ?thesis unfolding f32_add_def by (rule f32_round_exact)
qed

lemma f32_sub_exact:
  fixes B :: int
  assumes "\<bar>x\<bar> \<le> c * B" "\<bar>y\<bar> \<le> B" "(c + 1) * B \<le> 2 ^ 24"
  shows "f32_sub x y = Some (x - y)"
proof -
  have "\<bar>x - y\<bar> \<le> \<bar>x\<bar> + \<bar>y\<bar>" by (rule abs_triangle_ineq4)
  also have "\<dots> \<le> c * B + B" using assms(1,2) by simp
  also have "\<dots> = (c + 1) * B" by (simp add: algebra_simps)
  finally have "\<bar>x - y\<bar> \<le> 2 ^ 24" using assms(3) by simp
  then show ?thesis unfolding f32_sub_def by (rule f32_round_exact)
qed

lemma penalty_times_exact:
  assumes "1 \<le> B" "\<bar>m_penalty tb\<bar> \<le> B" "int k * B \<le> 2 ^ 24"
  shows "penalty_times tb k = Some (- (int k * m_penalty tb))"
proof -
  have "int k * 1 \<le> int k * B" using assms(1) by (intro mult_left_mono) simp_all
  then have k: "\<bar>int k\<bar> \<le> 2 ^ 24" using assms(3) by simp
  have "\<bar>int k * - m_penalty tb\<bar> = int k * \<bar>m_penalty tb\<bar>"
    by (simp add: abs_mult)
  also have "\<dots> \<le> int k * B" using assms(2) by (intro mult_left_mono) simp_all
  finally have p: "\<bar>int k * - m_penalty tb\<bar> \<le> 2 ^ 24" using assms(3) by simp
  have "f32_of_nat k = Some (int k)"
    unfolding f32_of_nat_def using k by (rule f32_round_exact)
  moreover have "f32_mul (int k) (- m_penalty tb) = Some (int k * - m_penalty tb)"
    unfolding f32_mul_def using p by (rule f32_round_exact)
  ultimately show ?thesis by (simp add: penalty_times_def)
qed

lemma those_map_Some:
  assumes "\<forall>x \<in> set xs. f x = Some (g x)"
  shows "those (map f xs) = Some (map g xs)"
  using assms by (induction xs) simp_all

lemma nw_col0: "nw tb s t i 0 = - (int i * m_penalty tb)"
  by (cases i) simp_all

lemma nw_bound:
  fixes B :: int
  assumes "0 \<le> B" "\<bar>m_penalty tb\<bar> \<le> B"
    and "\<forall>a \<in> set s. \<forall>b \<in> set t. \<bar>m_contents tb ! a ! b\<bar> \<le> B"
    and "i \<le> length s" "j \<le> length t"
  shows "\<bar>nw tb s t i j\<bar> \<le> (int i + int j) * B"
  using assms
proof (induction tb s t i j rule: nw.induct)
  case (1 tb s t j)
  have "\<bar>- (int j * m_penalty tb)\<bar> = int j * \<bar>m_penalty tb\<bar>" by (simp add: abs_mult)
  also have "\<dots> \<le> int j * B" using "1.prems"(2) by (intro mult_left_mono) simp_all
  finally show ?case by simp
next
  case (2 tb s t i)
  have "\<bar>- (int (Suc i) * m_penalty tb)\<bar> = int (Suc i) * \<bar>m_penalty tb\<bar>"
    by (simp only: abs_minus abs_mult abs_of_nat)
  also have "\<dots> \<le> int (Suc i) * B" using "2.prems"(2) by (intro mult_left_mono) simp_all
  finally show ?case by simp
next
  case (3 tb s t i j)
  note B0 = "3.prems"(1) and pB = "3.prems"(2) and mB = "3.prems"(3)
  have i: "i \<le> length s" "i < length s" and j: "j \<le> length t" "j < length t"
    using "3.prems"(4,5) by simp_all
  have d: "\<bar>nw tb s t i j\<bar> \<le> (int i + int j) * B"
    using B0 pB mB i(1) j(1) by (rule "3.IH"(1))
  have u: "\<bar>nw tb s t i (Suc j)\<bar> \<le> (int i + int (Suc j)) * B"
    using B0 pB mB i(1) "3.prems"(5) by (rule "3.IH"(2))
  have l: "\<bar>nw tb s t (Suc i) j\<bar> \<le> (int (Suc i) + int j) * B"
    using B0 pB mB "3.prems"(4) j(1) by (rule "3.IH"(3))
  have "s ! i \<in> set s" "t ! j \<in> set t" using i(2) j(2) by simp_all
  with mB have m: "\<bar>m_contents tb ! (s ! i) ! (t ! j)\<bar> \<le> B" by simp
  let ?T = "(int (Suc i) + int (Suc j)) * B"
  have e1: "(int i + int j) * B + B \<le> ?T" using B0 by (simp add: algebra_simps)
  have e2: "(int i + int (Suc j)) * B + B = ?T" by (simp add: algebra_simps)
  have e3: "(int (Suc i) + int j) * B + B = ?T" by (simp add: algebra_simps)
  have a1: "\<bar>nw tb s t i j + m_contents tb ! (s ! i) ! (t ! j)\<bar> \<le> ?T"
    using abs_triangle_ineq [of "nw tb s t i j" "m_contents tb ! (s ! i) ! (t ! j)"] d m e1
    by linarith
  have a2: "\<bar>nw tb s t i (Suc j) - m_penalty tb\<bar> \<le> ?T"
    using abs_triangle_ineq4 [of "nw tb s t i (Suc j)" "m_penalty tb"] u pB e2
    by linarith
  have a3: "\<bar>nw tb s t (Suc i) j - m_penalty tb\<bar> \<le> ?T"
    using abs_triangle_ineq4 [of "nw tb s t (Suc i) j" "m_penalty tb"] l pB e3
    by linarith
  have "\<bar>max x (max y z)\<bar> \<le> c" if "\<bar>x\<bar> \<le> c" "\<bar>y\<bar> \<le> c" "\<bar>z\<bar> \<le> c" for x y z c :: int
    using that by (simp add: max_def)
  from this [OF a1 a2 a3] show ?case by (simp only: nw.simps)
qed

lemma inner_exit: "length two < j \<Longrightarrow> inner tb c two j diag line = Some line"
  by (subst inner.simps) simp

lemma inner_step:
  assumes "1 \<le> j" "j \<le> length two" "j < length line"
  shows "inner tb c two j diag line =
     do {
       val \<leftarrow> (if two ! (j - 1) \<noteq> padding
               then cell tb c (two ! (j - 1)) diag (line ! (j - 1)) (line ! j)
               else Some (line ! (j - 1)));
       inner tb c two (j + 1) (line ! j) (line[j := val])
     }"
  using assms by (subst inner.simps) simp

lemma outer_exit: "length one \<le> i \<Longrightarrow> outer tb one two i line = Some line"
  by (subst outer.simps) simp

lemma outer_step:
  assumes "i < length one" "one ! i \<noteq> padding" "0 < length line"
  shows "outer tb one two i line =
     do {
       first \<leftarrow> penalty_times tb (i + 1);
       line2 \<leftarrow> inner tb (one ! i) two 1 (line ! 0) (line[0 := first]);
       outer tb one two (i + 1) line2
     }"
  using assms by (subst outer.simps) simp

lemma outer_break:
  assumes "i < length one" "one ! i = padding"
  shows "outer tb one two i line = Some line"
  using assms by (subst outer.simps) simp

lemma cell_nw:
  assumes "1 \<le> B" "\<bar>m_penalty tb\<bar> \<le> B"
    and "\<forall>a \<in> set s. \<forall>b \<in> set t. \<bar>m_contents tb ! a ! b\<bar> \<le> B"
    and "(int (length s) + int (length t)) * B \<le> 2 ^ 24"
    and "i < length s" "j < length t" "s ! i < padding" "t ! j < padding"
  shows "cell tb (s ! i) (t ! j) (nw tb s t i j) (nw tb s t (Suc i) j) (nw tb s t i (Suc j))
         = Some (nw tb s t (Suc i) (Suc j))"
proof -
  have B0: "0 \<le> B" using assms(1) by simp
  have top: "(int (Suc i) + int (Suc j)) * B \<le> 2 ^ 24"
    using assms(5,6) by (intro scaled_bound [OF B0 _ _ assms(4)]) simp_all
  have d: "\<bar>nw tb s t i j\<bar> \<le> (int i + int j) * B"
    using B0 assms(2,3,5,6) by (intro nw_bound) simp_all
  have u: "\<bar>nw tb s t i (Suc j)\<bar> \<le> (int i + int (Suc j)) * B"
    using B0 assms(2,3,5,6) by (intro nw_bound) simp_all
  have l: "\<bar>nw tb s t (Suc i) j\<bar> \<le> (int (Suc i) + int j) * B"
    using B0 assms(2,3,5,6) by (intro nw_bound) simp_all
  have "s ! i \<in> set s" "t ! j \<in> set t" using assms(5,6) by simp_all
  with assms(3) have m: "\<bar>m_contents tb ! (s ! i) ! (t ! j)\<bar> \<le> B" by simp
  have t1: "(int (Suc i) + int j + 1) * B \<le> 2 ^ 24" using top by (simp add: algebra_simps)
  have t2: "(int i + int (Suc j) + 1) * B \<le> 2 ^ 24" using top by (simp add: algebra_simps)
  have "(int i + int j + 1) * B \<le> (int i + int (Suc j) + 1) * B"
    using B0 by (intro mult_right_mono) simp_all
  with t2 have t3: "(int i + int j + 1) * B \<le> 2 ^ 24" by simp
  have ins: "f32_sub (nw tb s t (Suc i) j) (m_penalty tb) = Some (nw tb s t (Suc i) j - m_penalty tb)"
    using l assms(2) t1 by (rule f32_sub_exact)
  have rem: "f32_sub (nw tb s t i (Suc j)) (m_penalty tb) = Some (nw tb s t i (Suc j) - m_penalty tb)"
    using u assms(2) t2 by (rule f32_sub_exact)
  have mat: "f32_add (nw tb s t i j) (m_contents tb ! (s ! i) ! (t ! j))
      = Some (nw tb s t i j + m_contents tb ! (s ! i) ! (t ! j))"
    using d m t3 by (rule f32_add_exact)
  have c25: "s ! i < 25" "t ! j < 25" using assms(7,8) by (simp_all add: padding_def)
  show ?thesis
    unfolding cell_def ins rem using c25 by (simp add: mat max.commute)
qed

lemma inner_nw:
  assumes "1 \<le> B" "\<bar>m_penalty tb\<bar> \<le> B"
    and "\<forall>a \<in> set s. \<forall>b \<in> set t. \<bar>m_contents tb ! a ! b\<bar> \<le> B"
    and "(int (length s) + int (length t)) * B \<le> 2 ^ 24"
    and "i < length s" "s ! i < padding" "\<forall>x \<in> set t. x < padding"
    and "1 \<le> j" "j \<le> Suc (length t)" "length line = Suc (length t)"
    and "\<forall>k < j. line ! k = nw tb s t (Suc i) k"
    and "\<forall>k. j \<le> k \<and> k \<le> length t \<longrightarrow> line ! k = nw tb s t i k"
    and "diag = nw tb s t i (j - 1)"
  shows "\<exists>line'. inner tb (s ! i) t j diag line = Some line' \<and> length line' = Suc (length t)
           \<and> (\<forall>k \<le> length t. line' ! k = nw tb s t (Suc i) k)"
  using assms(8-)
proof (induction "Suc (length t) - j" arbitrary: j diag line)
  case 0
  then have "j = Suc (length t)" by simp
  with 0 show ?case by (simp add: inner_exit)
next
  case (Suc d)
  then have jt: "j \<le> length t" by simp
  from Suc.prems(1) obtain j' where j': "j = Suc j'" by (cases j) simp_all
  have j't: "j' < length t" using jt j' by simp
  then have tj: "t ! j' < padding" using assms(7) by simp
  let ?v = "nw tb s t (Suc i) j"
  have left: "line ! j' = nw tb s t (Suc i) j'" using Suc.prems(4) j' by simp
  have up: "line ! j = nw tb s t i j" using Suc.prems(5) jt by simp
  have jl: "j < length line" using Suc.prems(3) jt by simp
  have "cell tb (s ! i) (t ! j') (nw tb s t i j') (nw tb s t (Suc i) j') (nw tb s t i (Suc j'))
      = Some (nw tb s t (Suc i) (Suc j'))"
    using assms(1-5) j't assms(6) tj by (rule cell_nw)
  then have val: "cell tb (s ! i) (t ! j') diag (line ! j') (line ! j) = Some ?v"
    using left up Suc.prems(6) j' by simp
  have step: "inner tb (s ! i) t j diag line = inner tb (s ! i) t (j + 1) (line ! j) (line[j := ?v])"
    using Suc.prems(1) jl jt tj val j' by (simp add: inner_step)
  have "\<exists>line'. inner tb (s ! i) t (j + 1) (line ! j) (line[j := ?v]) = Some line'
          \<and> length line' = Suc (length t) \<and> (\<forall>k \<le> length t. line' ! k = nw tb s t (Suc i) k)"
  proof (rule Suc.hyps(1))
    show "d = Suc (length t) - (j + 1)" using Suc.hyps(2) by simp
    show "1 \<le> j + 1" by simp
    show "j + 1 \<le> Suc (length t)" using jt by simp
    show "length (line[j := ?v]) = Suc (length t)" using Suc.prems(3) by simp
    show "\<forall>k < j + 1. line[j := ?v] ! k = nw tb s t (Suc i) k"
      using Suc.prems(4) jl by (auto simp: nth_list_update less_Suc_eq)
    show "\<forall>k. j + 1 \<le> k \<and> k \<le> length t \<longrightarrow> line[j := ?v] ! k = nw tb s t i k"
      using Suc.prems(5) by (auto simp: nth_list_update)
    show "line ! j = nw tb s t i (j + 1 - 1)" using up by simp
  qed
  with step show ?case by simp
qed

lemma outer_nw:
  assumes "1 \<le> B" "\<bar>m_penalty tb\<bar> \<le> B"
    and "\<forall>a \<in> set s. \<forall>b \<in> set t. \<bar>m_contents tb ! a ! b\<bar> \<le> B"
    and "(int (length s) + int (length t)) * B \<le> 2 ^ 24"
    and "\<forall>x \<in> set s. x < padding" "\<forall>x \<in> set t. x < padding"
    and "i \<le> length s" "length line = Suc (length t)"
    and "\<forall>k \<le> length t. line ! k = nw tb s t i k"
  shows "\<exists>line'. outer tb s t i line = Some line' \<and> length line' = Suc (length t)
           \<and> (\<forall>k \<le> length t. line' ! k = nw tb s t (length s) k)"
  using assms(7-)
proof (induction "length s - i" arbitrary: i line)
  case 0
  then have "i = length s" by simp
  with 0 show ?case by (simp add: outer_exit)
next
  case (Suc d)
  then have lt: "i < length s" by simp
  then have si: "s ! i < padding" using assms(5) by simp
  have B0: "0 \<le> B" using assms(1) by simp
  have "(int (i + 1) + int 0) * B \<le> 2 ^ 24"
    using lt by (intro scaled_bound [OF B0 _ _ assms(4)]) simp_all
  then have "int (i + 1) * B \<le> 2 ^ 24" by simp
  with assms(1,2) have first: "penalty_times tb (i + 1) = Some (- (int (i + 1) * m_penalty tb))"
    by (rule penalty_times_exact)
  let ?l1 = "line[0 := - (int (i + 1) * m_penalty tb)]"
  have "\<exists>line'. inner tb (s ! i) t 1 (line ! 0) ?l1 = Some line' \<and> length line' = Suc (length t)
           \<and> (\<forall>k \<le> length t. line' ! k = nw tb s t (Suc i) k)"
  proof (rule inner_nw [OF assms(1-4) lt si assms(6)])
    show "(1::nat) \<le> 1" by simp
    show "1 \<le> Suc (length t)" by simp
    show "length ?l1 = Suc (length t)" using Suc.prems(2) by simp
    show "\<forall>k < 1. ?l1 ! k = nw tb s t (Suc i) k" using Suc.prems(2) by simp
    show "\<forall>k. 1 \<le> k \<and> k \<le> length t \<longrightarrow> ?l1 ! k = nw tb s t i k"
      using Suc.prems(3) by simp
    show "line ! 0 = nw tb s t i (1 - 1)" using Suc.prems(3) by simp
  qed
  then obtain l2 where l2: "inner tb (s ! i) t 1 (line ! 0) ?l1 = Some l2"
    "length l2 = Suc (length t)" "\<forall>k \<le> length t. l2 ! k = nw tb s t (Suc i) k"
    by (elim exE conjE)
  have step: "outer tb s t i line = outer tb s t (i + 1) l2"
    using lt si Suc.prems(2) l2(1) first by (simp add: outer_step padding_def)
  have "\<exists>line'. outer tb s t (i + 1) l2 = Some line' \<and> length line' = Suc (length t)
           \<and> (\<forall>k \<le> length t. line' ! k = nw tb s t (length s) k)"
  proof (rule Suc.hyps(1))
    show "d = length s - (i + 1)" using Suc.hyps(2) by simp
    show "i + 1 \<le> length s" using lt by simp
    show "length l2 = Suc (length t)" by (rule l2(2))
    show "\<forall>k \<le> length t. l2 ! k = nw tb s t (i + 1) k" using l2(3) by simp
  qed
  with step show ?case by simp
qed

lemma first_line_exact:
  assumes "1 \<le> B" "\<bar>m_penalty tb\<bar> \<le> B" "int n * B \<le> 2 ^ 24"
  shows "those (map (penalty_times tb) [0 ..< n + 1])
         = Some (map (\<lambda>k. - (int k * m_penalty tb)) [0 ..< n + 1])"
proof (rule those_map_Some, intro ballI)
  fix k assume "k \<in> set [0 ..< n + 1]"
  then have "k \<le> n" by auto
  then have "int k * B \<le> int n * B" using assms(1) by (intro mult_right_mono) simp_all
  with assms(3) have "int k * B \<le> 2 ^ 24" by simp
  with assms(1,2) show "penalty_times tb k = Some (- (int k * m_penalty tb))"
    by (rule penalty_times_exact)
qed

lemma encode_ACGT: "encode ''ACGT'' = [0, 1, 3, 2]" "encode ''ACT'' = [0, 1, 2]"
  "encode ''A'' = [0]" "encode '''' = []" "encode ''A*'' = [0, 24]" "encode ''**'' = [24, 24]"
  by (simp_all add: encode_def encode_symbol_def alphabet_def)

text \<open>
  C1 (as amended). For sequences \<open>s\<close> and \<open>t\<close> without padding symbol (all codes are residue
  codes, below the padding code), \<open>align_pair\<close> returns cell \<open>(length s, length t)\<close> of the
  recurrence, provided that every cell is exactly representable in single precision: for a
  bound \<open>B \<ge> 1\<close> on the magnitude of the penalty and of the matrix entries the two sequences
  address, \<open>(length s + length t) \<sqdot> B \<le> 2\<^sup>2\<^sup>4\<close>. The result holds for every pair of such
  lengths; \<open>length t \<le> length s\<close> is not needed.
\<close>

theorem align_pair_nw:
  assumes "\<forall>x \<in> set s. x < padding" "\<forall>x \<in> set t. x < padding"
    and "1 \<le> B" "\<bar>m_penalty tb\<bar> \<le> B"
    and "\<forall>a \<in> set s. \<forall>b \<in> set t. \<bar>m_contents tb ! a ! b\<bar> \<le> B"
    and "(int (length s) + int (length t)) * B \<le> 2 ^ 24"
  shows "align_pair tb s t = Some (nw tb s t (length s) (length t))"
proof -
  let ?l0 = "map (\<lambda>k. - (int k * m_penalty tb)) [0 ..< length t + 1]"
  have B0: "0 \<le> B" using assms(3) by simp
  have "(int 0 + int (length t)) * B \<le> 2 ^ 24"
    by (intro scaled_bound [OF B0 _ _ assms(6)]) simp_all
  then have "int (length t) * B \<le> 2 ^ 24" by simp
  with assms(3,4) have init: "those (map (penalty_times tb) [0 ..< length t + 1]) = Some ?l0"
    by (rule first_line_exact)
  have "\<exists>line'. outer tb s t 0 ?l0 = Some line' \<and> length line' = Suc (length t)
           \<and> (\<forall>k \<le> length t. line' ! k = nw tb s t (length s) k)"
  proof (rule outer_nw [OF assms(3-6) assms(1,2)])
    show "0 \<le> length s" by simp
    show "length ?l0 = Suc (length t)" by simp
    show "\<forall>k \<le> length t. ?l0 ! k = nw tb s t 0 k"
    proof (intro allI impI)
      fix k assume "k \<le> length t"
      then have "k < length t + 1" by simp
      then have "?l0 ! k = - (int k * m_penalty tb)"
        by (simp only: nth_map_upt) simp
      then show "?l0 ! k = nw tb s t 0 k" by simp
    qed
  qed
  then show ?thesis unfolding align_pair_def init by auto
qed

theorem align_pair_nw_witness:
  "encode ''ACGT'' = [0, 1, 3, 2] \<and> encode ''ACT'' = [0, 1, 2] \<and> (3::nat) < padding
   \<and> \<bar>m_penalty blosum62\<bar> \<le> 9
   \<and> (int (length (encode ''ACGT'')) + int (length (encode ''ACT''))) * 9 \<le> 2 ^ 24
   \<and> align_pair blosum62 (encode ''ACGT'') (encode ''ACT'') = Some 14"
proof -
  have h: "\<forall>x \<in> set (encode ''ACGT''). x < padding" "\<forall>x \<in> set (encode ''ACT''). x < padding"
    by (simp_all add: encode_ACGT padding_def)
  have b: "(1::int) \<le> 9" "\<bar>m_penalty blosum62\<bar> \<le> 9"
    "(int (length (encode ''ACGT'')) + int (length (encode ''ACT''))) * 9 \<le> 2 ^ 24"
    by (simp_all add: encode_ACGT blosum62_def)
  have m: "\<forall>a \<in> set (encode ''ACGT''). \<forall>b \<in> set (encode ''ACT''). \<bar>m_contents blosum62 ! a ! b\<bar> \<le> 9"
    by (simp add: encode_ACGT blosum62_def table_blosum62_def)
  have n: "nw blosum62 (encode ''ACGT'') (encode ''ACT'') (length (encode ''ACGT'')) (length (encode ''ACT'')) = 14"
    unfolding encode_ACGT by code_simp
  have r: "align_pair blosum62 (encode ''ACGT'') (encode ''ACT'') = Some 14"
    using align_pair_nw [OF h b(1,2) m b(3)] by (simp only: n)
  have p: "(3::nat) < padding" by (simp add: padding_def)
  from encode_ACGT(1,2) p b(2,3) r show ?thesis by (intro conjI)
qed

lemma outer_no_columns:
  assumes "\<forall>x \<in> set s. x \<noteq> padding"
    and "\<forall>k \<le> length s. penalty_times tb k \<noteq> None"
    and "i < length s"
  shows "outer tb s [] i [x] = map_option (\<lambda>v. [v]) (penalty_times tb (length s))"
  using assms(3)
proof (induction "length s - i" arbitrary: i x)
  case 0
  then show ?case by simp
next
  case (Suc d)
  have lt: "i < length s" by (rule Suc.prems)
  then have si: "s ! i \<noteq> padding" using assms(1) by simp
  have "i + 1 \<le> length s" using lt by simp
  then have "penalty_times tb (i + 1) \<noteq> None" by (rule assms(2) [rule_format])
  then obtain v where v: "penalty_times tb (i + 1) = Some v"
    by (cases "penalty_times tb (i + 1)") simp_all
  have step: "outer tb s [] i [x] = outer tb s [] (i + 1) [v]"
    using lt si v by (simp add: outer_step inner_exit)
  show ?case
  proof (cases "i + 1 < length s")
    case True
    have "outer tb s [] (i + 1) [v] = map_option (\<lambda>v. [v]) (penalty_times tb (length s))"
      using Suc.hyps(2) True by (intro Suc.hyps(1)) simp_all
    with step show ?thesis by simp
  next
    case False
    with lt have e: "i + 1 = length s" by simp
    then have "outer tb s [] (i + 1) [v] = Some [v]" by (simp add: outer_exit)
    with step v e show ?thesis by simp
  qed
qed

lemma f32_round_16777220: "f32_round (- 16777220) = Some (- 16777220)"
  by code_simp

lemma f32_round_16777225: "f32_round (- 16777225) = Some (- 16777224)"
  by code_simp

lemma penalty_times_blosum45:
  "penalty_times blosum45 3355445 = Some (- 16777224)"
  "k \<le> 3355445 \<Longrightarrow> penalty_times blosum45 k \<noteq> None"
proof -
  have p: "m_penalty blosum45 = 5" by (simp add: blosum45_def)
  show a: "penalty_times blosum45 3355445 = Some (- 16777224)"
    by (simp add: penalty_times_def f32_of_nat_def f32_mul_def p f32_round_exact f32_round_16777225)
  have b: "penalty_times blosum45 3355444 = Some (- 16777220)"
    by (simp add: penalty_times_def f32_of_nat_def f32_mul_def p f32_round_exact f32_round_16777220)
  assume "k \<le> 3355445"
  then consider "k \<le> 3355443" | "k = 3355444" | "k = 3355445" by linarith
  then show "penalty_times blosum45 k \<noteq> None"
  proof cases
    case 1
    then have "int k * 5 \<le> 2 ^ 24" by simp
    then have "penalty_times blosum45 k = Some (- (int k * m_penalty blosum45))"
      by (intro penalty_times_exact) (simp_all add: p)
    then show ?thesis by simp
  next
    case 2
    with b show ?thesis by simp
  next
    case 3
    with a show ?thesis by simp
  qed
qed

text \<open>
  Beyond that range the program rounds. With the catalogue table \<^verbatim>\<open>blosum45\<close> (penalty 5),
  a sequence of 3355445 symbols \<^verbatim>\<open>A\<close> against the empty sequence has cell
  \<open>- 16777225\<close> in the recurrence, which is no single-precision number: \<open>align_pair\<close>
  returns its neighbour \<open>- 16777224\<close>.
\<close>

theorem align_pair_rounding_counterexample:
  "align_pair blosum45 (replicate 3355445 (encode_symbol CHR ''A'')) [] = Some (- 16777224)
   \<and> nw blosum45 (replicate 3355445 (encode_symbol CHR ''A'')) []
        (length (replicate 3355445 (encode_symbol CHR ''A''))) (length ([] :: sequence)) = - 16777225"
proof -
  let ?s = "replicate 3355445 (encode_symbol CHR ''A'')"
  have A: "encode_symbol CHR ''A'' \<noteq> padding"
    by (simp add: encode_symbol_def alphabet_def padding_def)
  have s: "\<forall>x \<in> set ?s. x \<noteq> padding" using A by simp
  have len: "length ?s = 3355445" by simp
  have fin: "\<forall>k \<le> length ?s. penalty_times blosum45 k \<noteq> None"
    unfolding len using penalty_times_blosum45(2) by (intro allI impI)
  have "(0::nat) < length ?s" by simp
  with s fin have o: "outer blosum45 ?s [] 0 [0]
      = map_option (\<lambda>v. [v]) (penalty_times blosum45 (length ?s))"
    by (rule outer_no_columns)
  have z: "penalty_times blosum45 0 = Some 0"
    by (simp add: penalty_times_def f32_of_nat_def f32_mul_def f32_round_exact)
  have "align_pair blosum45 ?s [] = Some (- 16777224)"
    unfolding align_pair_def by (simp add: z o del: length_replicate replicate_eq_replicate add: len penalty_times_blosum45(1))
  moreover have "nw blosum45 ?s [] (length ?s) (length ([] :: sequence)) = - 16777225"
    by (simp add: nw_col0 blosum45_def)
  ultimately show ?thesis by (intro conjI)
qed

text \<open>
  Where padding is harmless. Padding symbols appended to the first sequence never change
  the result, since the outer loop stops at the first of them. Padding symbols appended to
  the second sequence do not change it either as long as one row is computed (the first
  sequence is not empty and does not begin with the padding symbol), since a padded column
  copies the cell to its left; the appended columns of line 0 must be finite scores.
\<close>

lemma outer_pad_one:
  assumes "i \<le> length s"
  shows "outer tb (s @ replicate k padding) t i line = outer tb s t i line"
  using assms
proof (induction "length s - i" arbitrary: i line)
  case 0
  then have i: "i = length s" by simp
  have "outer tb (s @ replicate k padding) t i line = Some line"
  proof (cases "k = 0")
    case True
    with i show ?thesis by (simp add: outer_exit)
  next
    case False
    with i have "i < length (s @ replicate k padding)" "(s @ replicate k padding) ! i = padding"
      by (simp_all add: nth_append)
    then show ?thesis by (rule outer_break)
  qed
  with i show ?case by (simp add: outer_exit)
next
  case (Suc d)
  then have lt: "i < length s" by simp
  have "outer tb (s @ replicate k padding) t (Suc i) l = outer tb s t (Suc i) l" for l
    using Suc.hyps(2) lt by (intro Suc.hyps(1)) simp_all
  then have ih: "outer tb (s @ replicate k padding) t (Suc i) = outer tb s t (Suc i)"
    by (intro ext)
  have nth: "(s @ replicate k padding) ! i = s ! i" using lt by (simp add: nth_append)
  have lt': "i < length (s @ replicate k padding)" using lt by simp
  show ?case
    unfolding outer.simps [of tb "s @ replicate k padding" t i line] outer.simps [of tb s t i line]
    by (simp add: lt lt' nth ih del: length_append)
qed

lemma align_pair_pad_one:
  "align_pair tb (s @ replicate k padding) t = align_pair tb s t"
  by (simp add: align_pair_def outer_pad_one)

lemma inner_length:
  "inner tb c two j diag line = Some line' \<Longrightarrow> length line' = length line"
proof (induction tb c two j diag line arbitrary: line' rule: inner.induct)
  case (1 tb c two j diag line)
  show ?case
  proof (cases "j \<le> length two")
    case False
    with "1.prems" show ?thesis by (simp add: inner_exit)
  next
    case True
    from "1.prems" True obtain left tj up val l1 where
      st: "rd line (j - 1) = Some left" "rd two (j - 1) = Some tj" "rd line j = Some up"
        "(if tj \<noteq> padding then cell tb c tj diag left up else Some left) = Some val"
        "wr line j val = Some l1"
        "inner tb c two (j + 1) up l1 = Some line'"
      by (subst (asm) inner.simps) (auto simp: bind_eq_Some_conv)
    have "length line' = length l1"
      using True st by (intro "1.IH") 
    moreover have "length l1 = length line"
      using st(5) by (auto simp: wr_def split: if_splits)
    ultimately show ?thesis by simp
  qed
qed


lemma outer_length:
  "outer tb one two i line = Some line' \<Longrightarrow> length line' = length line"
proof (induction tb one two i line arbitrary: line' rule: outer.induct)
  case (1 tb one two i line)
  show ?case
  proof (cases "i < length one")
    case False
    with "1.prems" show ?thesis by (simp add: outer_exit)
  next
    case True
    show ?thesis
    proof (cases "one ! i = padding")
      case pad: True
      with True "1.prems" show ?thesis by (simp add: outer_break)
    next
      case nopad: False
      from "1.prems" True nopad obtain diag first l1 l2 where
        st: "rd one i = Some (one ! i)" "rd line 0 = Some diag"
          "penalty_times tb (i + 1) = Some first"
          "wr line 0 first = Some l1"
          "inner tb (one ! i) two 1 diag l1 = Some l2"
          "outer tb one two (i + 1) l2 = Some line'"
        by (subst (asm) outer.simps) (auto simp: bind_eq_Some_conv)
      have "length line' = length l2"
        using True nopad st by (intro "1.IH")
      moreover have "length l2 = length l1" using st(5) by (rule inner_length)
      moreover have "length l1 = length line"
        using st(4) by (auto simp: wr_def split: if_splits)
      ultimately show ?thesis by simp
    qed
  qed
qed


lemma tail_const_decomp:
  assumes "length L = Suc (n + k)" "\<forall>m. n \<le> m \<and> m < Suc (n + k) \<longrightarrow> L ! m = L ! n"
  shows "take (Suc n) L @ replicate k (L ! n) = L"
proof (rule nth_equalityI)
  show "length (take (Suc n) L @ replicate k (L ! n)) = length L"
    using assms(1) by simp
next
  fix m assume "m < length (take (Suc n) L @ replicate k (L ! n))"
  then have m: "m < Suc (n + k)" using assms(1) by simp
  show "(take (Suc n) L @ replicate k (L ! n)) ! m = L ! m"
  proof (cases "m < Suc n")
    case True
    then show ?thesis using assms(1) by (simp add: nth_append)
  next
    case False
    then have "n \<le> m" by simp
    with m have "n \<le> m \<and> m < Suc (n + k)" by simp
    with assms(2) [rule_format, of m] have "L ! m = L ! n" .
    moreover have "(take (Suc n) L @ replicate k (L ! n)) ! m = L ! n"
      using False m assms(1) by (simp add: nth_append)
    ultimately show ?thesis by simp
  qed
qed

lemma inner_pad_phase:
  assumes "length t < j" "j \<le> Suc (length t + k)" "length L = Suc (length t + k)"
    and "\<forall>m. length t \<le> m \<and> m < j \<longrightarrow> L ! m = L ! length t"
  shows "inner tb c (t @ replicate k padding) j diag L
         = Some (take (Suc (length t)) L @ replicate k (L ! length t))"
  using assms
proof (induction "Suc (length t + k) - j" arbitrary: j diag L)
  case 0
  have j: "j = Suc (length t + k)" using "0.hyps" "0.prems"(2) by simp
  then have "inner tb c (t @ replicate k padding) j diag L = Some L"
    by (simp add: inner_exit)
  moreover have "take (Suc (length t)) L @ replicate k (L ! length t) = L"
  proof (rule tail_const_decomp)
    show "length L = Suc (length t + k)" by (rule "0.prems"(3))
    show "\<forall>m. length t \<le> m \<and> m < Suc (length t + k) \<longrightarrow> L ! m = L ! length t"
      using "0.prems"(4) unfolding j .
  qed
  ultimately show ?case by simp
next
  case (Suc d)
  have jl: "j \<le> length t + k" using Suc.hyps(2) by simp
  have j1: "1 \<le> j" using Suc.prems(1) by simp
  have "\<not> j - 1 < length t" "j - 1 - length t < k"
    using Suc.prems(1) jl by simp_all
  then have pad: "(t @ replicate k padding) ! (j - 1) = padding"
    by (simp add: nth_append)
  have "length t \<le> j - 1 \<and> j - 1 < j" using Suc.prems(1) by simp
  with Suc.prems(4) [rule_format, of "j - 1"] have prev: "L ! (j - 1) = L ! length t" .
  have step: "inner tb c (t @ replicate k padding) j diag L
      = inner tb c (t @ replicate k padding) (j + 1) (L ! j) (L[j := L ! length t])"
    using j1 jl Suc.prems(3) pad prev by (simp add: inner_step)
  have "inner tb c (t @ replicate k padding) (j + 1) (L ! j) (L[j := L ! length t])
      = Some (take (Suc (length t)) (L[j := L ! length t])
              @ replicate k ((L[j := L ! length t]) ! length t))"
  proof (rule Suc.hyps(1))
    show "d = Suc (length t + k) - (j + 1)" using Suc.hyps(2) by simp
    show "length t < j + 1" using Suc.prems(1) by simp
    show "j + 1 \<le> Suc (length t + k)" using jl by simp
    show "length (L[j := L ! length t]) = Suc (length t + k)" using Suc.prems(3) by simp
    show "\<forall>m. length t \<le> m \<and> m < j + 1 \<longrightarrow>
        L[j := L ! length t] ! m = L[j := L ! length t] ! length t"
    proof (intro allI impI)
      fix m assume m: "length t \<le> m \<and> m < j + 1"
      have r: "L[j := L ! length t] ! length t = L ! length t"
        using Suc.prems(1) by simp
      show "L[j := L ! length t] ! m = L[j := L ! length t] ! length t"
      proof (cases "m = j")
        case True
        then show ?thesis using r jl Suc.prems(3) by simp
      next
        case False
        with m have "length t \<le> m \<and> m < j" by simp
        with Suc.prems(4) [rule_format, of m] have "L ! m = L ! length t" .
        with False r show ?thesis by simp
      qed
    qed
  qed
  moreover have "take (Suc (length t)) (L[j := L ! length t]) = take (Suc (length t)) L"
    using Suc.prems(1) by simp
  moreover have "(L[j := L ! length t]) ! length t = L ! length t"
    using Suc.prems(1) by simp
  ultimately show ?case using step by simp
qed


lemma inner_pad_two:
  assumes "1 \<le> j" "j \<le> Suc (length t)" "length line = Suc (length t)" "length ext = k"
  shows "inner tb c (t @ replicate k padding) j diag (line @ ext)
         = map_option (\<lambda>l. l @ replicate k (l ! length t)) (inner tb c t j diag line)"
  using assms(1-3)
proof (induction "Suc (length t) - j" arbitrary: j diag line)
  case 0
  then have j: "j = Suc (length t)" by simp
  have "inner tb c (t @ replicate k padding) j diag (line @ ext)
       = Some (take (Suc (length t)) (line @ ext) @ replicate k ((line @ ext) ! length t))"
  proof (rule inner_pad_phase)
    show "length t < j" using j by simp
    show "j \<le> Suc (length t + k)" using j by simp
    show "length (line @ ext) = Suc (length t + k)" using "0.prems"(3) assms(4) by simp
    show "\<forall>m. length t \<le> m \<and> m < j \<longrightarrow> (line @ ext) ! m = (line @ ext) ! length t"
    proof (intro allI impI)
      fix m assume "length t \<le> m \<and> m < j"
      with j have "m = length t" by simp
      then show "(line @ ext) ! m = (line @ ext) ! length t" by simp
    qed
  qed
  also have "\<dots> = Some (line @ replicate k (line ! length t))"
    using "0.prems"(3) by (simp add: nth_append)
  finally show ?case using j by (simp add: inner_exit)
next
  case (Suc d)
  then have jt: "j \<le> length t" by simp
  have jl: "j < length line" using jt Suc.prems(3) by simp
  have ih: "inner tb c (t @ replicate k padding) (j + 1) (line ! j) (line[j := v] @ ext)
      = map_option (\<lambda>l. l @ replicate k (l ! length t)) (inner tb c t (j + 1) (line ! j) (line[j := v]))"
    for v
    using Suc.hyps(2) jt Suc.prems(3) by (intro Suc.hyps(1)) simp_all
  have L: "inner tb c (t @ replicate k padding) j diag (line @ ext) =
     do {
       val \<leftarrow> (if t ! (j - 1) \<noteq> padding
               then cell tb c (t ! (j - 1)) diag (line ! (j - 1)) (line ! j)
               else Some (line ! (j - 1)));
       inner tb c (t @ replicate k padding) (j + 1) (line ! j) (line[j := val] @ ext)
     }"
  proof -
    have a: "1 \<le> j" "j \<le> length (t @ replicate k padding)" "j < length (line @ ext)"
      using Suc.prems(1) jt jl by simp_all
    have b: "(t @ replicate k padding) ! (j - 1) = t ! (j - 1)"
      "(line @ ext) ! (j - 1) = line ! (j - 1)" "(line @ ext) ! j = line ! j"
      "(line @ ext)[j := v] = line[j := v] @ ext" for v
    proof -
      have jm: "j - 1 < length t" "j - 1 < length line"
        using Suc.prems(1) jt jl by simp_all
      show "(t @ replicate k padding) ! (j - 1) = t ! (j - 1)"
        using jm(1) by (simp only: nth_append if_True)
      show "(line @ ext) ! (j - 1) = line ! (j - 1)"
        using jm(2) by (simp only: nth_append if_True)
      show "(line @ ext) ! j = line ! j"
        using jl by (simp only: nth_append if_True)
      show "(line @ ext)[j := v] = line[j := v] @ ext"
        using jl by (simp only: list_update_append1)
    qed
    show ?thesis
      unfolding inner_step [OF a] b ..
  qed
  have R: "inner tb c t j diag line =
     do {
       val \<leftarrow> (if t ! (j - 1) \<noteq> padding
               then cell tb c (t ! (j - 1)) diag (line ! (j - 1)) (line ! j)
               else Some (line ! (j - 1)));
       inner tb c t (j + 1) (line ! j) (line[j := val])
     }"
    using Suc.prems(1) jt jl by (rule inner_step)
  show ?case
    unfolding L R ih map_option_bind comp_def ..
qed


lemma outer_pad_two:
  assumes "length line = Suc (length t)" "length ext = k"
    and "(i < length s \<and> s ! i \<noteq> padding) \<or> ext = replicate k (line ! length t)"
  shows "outer tb s (t @ replicate k padding) i (line @ ext)
         = map_option (\<lambda>l. l @ replicate k (l ! length t)) (outer tb s t i line)"
  using assms
proof (induction "length s - i" arbitrary: i line ext)
  case 0
  then have ge: "length s \<le> i" by simp
  with "0.prems"(3) have "ext = replicate k (line ! length t)" by simp
  with ge show ?case by (simp add: outer_exit)
next
  case (Suc d)
  have lt: "i < length s" using Suc.hyps(2) by simp
  show ?case
  proof (cases "s ! i = padding")
    case True
    with Suc.prems(3) have "ext = replicate k (line ! length t)" by simp
    with lt True show ?thesis by (simp add: outer_break)
  next
    case False
    let ?f = "\<lambda>l. l @ replicate k (l ! length t)"
    have pos: "0 < length line" "0 < length (line @ ext)" using Suc.prems(1) by simp_all
    have upd: "(line @ ext) ! 0 = line ! 0" "(line @ ext)[0 := v] = line[0 := v] @ ext" for v
      using pos(1) by (simp_all add: nth_append list_update_append1)
    have L: "outer tb s (t @ replicate k padding) i (line @ ext) =
       do {
         first \<leftarrow> penalty_times tb (i + 1);
         line2 \<leftarrow> inner tb (s ! i) (t @ replicate k padding) 1 (line ! 0) (line[0 := first] @ ext);
         outer tb s (t @ replicate k padding) (i + 1) line2
       }"
      unfolding outer_step [OF lt False pos(2)] upd ..
    have R: "outer tb s t i line =
       do {
         first \<leftarrow> penalty_times tb (i + 1);
         line2 \<leftarrow> inner tb (s ! i) t 1 (line ! 0) (line[0 := first]);
         outer tb s t (i + 1) line2
       }"
      using lt False pos(1) by (rule outer_step)
    show ?thesis
    proof (cases "penalty_times tb (i + 1)")
      case None
      then show ?thesis unfolding L R by simp
    next
      case first: (Some v)
      have L': "outer tb s (t @ replicate k padding) i (line @ ext) =
         do {
           line2 \<leftarrow> inner tb (s ! i) (t @ replicate k padding) 1 (line ! 0) (line[0 := v] @ ext);
           outer tb s (t @ replicate k padding) (i + 1) line2
         }"
        using first by (simp add: L)
      have R': "outer tb s t i line =
         do {
           line2 \<leftarrow> inner tb (s ! i) t 1 (line ! 0) (line[0 := v]);
           outer tb s t (i + 1) line2
         }"
        using first by (simp add: R)
      have I: "inner tb (s ! i) (t @ replicate k padding) 1 (line ! 0) (line[0 := v] @ ext)
          = map_option ?f (inner tb (s ! i) t 1 (line ! 0) (line[0 := v]))"
        using Suc.prems(1,2) by (intro inner_pad_two) simp_all
      show ?thesis
      proof (cases "inner tb (s ! i) t 1 (line ! 0) (line[0 := v])")
        case None
        then show ?thesis unfolding L' R' I by simp
      next
        case (Some l2)
        then have len2: "length l2 = Suc (length t)"
          using inner_length [OF Some] Suc.prems(1) by simp
        have "outer tb s (t @ replicate k padding) (i + 1) (l2 @ replicate k (l2 ! length t))
            = map_option ?f (outer tb s t (i + 1) l2)"
          using Suc.hyps(2) len2 by (intro Suc.hyps(1)) simp_all
        then show ?thesis unfolding L' R' I Some by simp
      qed
    qed
  qed
qed


lemma those_length: "those xs = Some ys \<Longrightarrow> length ys = length xs"
  by (induction xs arbitrary: ys) (auto split: option.splits)

lemma those_append:
  "those (xs @ ys) = do { a \<leftarrow> those xs; b \<leftarrow> those ys; Some (a @ b) }"
proof (induction xs)
  case Nil
  show ?case by (cases "those ys") simp_all
next
  case (Cons x xs)
  then show ?case by (cases x; cases "those xs"; cases "those ys") simp_all
qed

lemma align_pair_pad_two:
  assumes "s \<noteq> []" "hd s \<noteq> padding"
    and "\<forall>j \<le> length t + k. penalty_times tb j \<noteq> None"
  shows "align_pair tb s (t @ replicate k padding) = align_pair tb s t"
proof -
  let ?g = "penalty_times tb"
  let ?f = "\<lambda>l. l @ replicate k (l ! length t)"
  have "length (t @ replicate k padding) + 1 = length t + 1 + k" by simp
  then have "[0 ..< length (t @ replicate k padding) + 1] = [0 ..< length t + 1] @ [length t + 1 ..< length t + 1 + k]"
    using upt_add_eq_append [of 0 "length t + 1" k] by (simp only: le0)
  then have split: "map ?g [0 ..< length (t @ replicate k padding) + 1]
      = map ?g [0 ..< length t + 1] @ map ?g [length t + 1 ..< length t + 1 + k]"
    by (simp only: map_append)
  have "\<forall>x \<in> set [0 ..< length t + 1 + k]. ?g x = Some (the (?g x))"
    using assms(3) by auto
  then have "those (map ?g [0 ..< length t + 1 + k]) = Some (map (\<lambda>x. the (?g x)) [0 ..< length t + 1 + k])"
    by (rule those_map_Some)
  then obtain whole where whole: "those (map ?g [0 ..< length (t @ replicate k padding) + 1]) = Some whole"
    by simp
  from whole obtain l0 ext where parts: "those (map ?g [0 ..< length t + 1]) = Some l0"
    "those (map ?g [length t + 1 ..< length t + 1 + k]) = Some ext" "whole = l0 @ ext"
    unfolding split those_append by (auto simp: bind_eq_Some_conv)
  have len0: "length l0 = Suc (length t)" using those_length [OF parts(1)] by simp
  have lenx: "length ext = k" using those_length [OF parts(2)] by simp
  have first: "0 < length s \<and> s ! 0 \<noteq> padding"
    using assms(1,2) by (cases s) simp_all
  have O: "outer tb s (t @ replicate k padding) 0 (l0 @ ext) = map_option ?f (outer tb s t 0 l0)"
    using len0 lenx first by (intro outer_pad_two) simp_all
  show ?thesis
  proof (cases "outer tb s t 0 l0")
    case None
    then show ?thesis unfolding align_pair_def whole parts(1) parts(3) by (simp add: O)
  next
    case (Some l)
    have len: "length l = Suc (length t)"
      using outer_length [OF Some] len0 by simp
    have "rd (l @ replicate k (l ! length t)) (length (t @ replicate k padding)) = Some (l ! length t)"
    proof (cases "k = 0")
      case True
      with len show ?thesis by simp
    next
      case False
      then have "length t + k < length (l @ replicate k (l ! length t))"
        "(l @ replicate k (l ! length t)) ! (length t + k) = l ! length t"
        using len by (simp_all add: nth_append)
      then show ?thesis by (simp add: rd_def)
    qed
    moreover have "rd l (length t) = Some (l ! length t)" using len by simp
    ultimately show ?thesis unfolding align_pair_def whole parts(1) parts(3) by (simp add: O Some)
  qed
qed

text \<open>
  C2. Appending padding symbols to the tail of a sequence must not change its score against
  any other sequence. The code misses the case in which no row is computed: line 0 is
  filled with \<open>- j \<sqdot> p\<close> for every column, padded columns included, and when the first
  sequence begins with the padding symbol the last entry of that line is returned as it
  is. Against \<^verbatim>\<open>"**"\<close>, the sequence \<^verbatim>\<open>"A*"\<close> scores \<open>-8\<close> and its truncation \<^verbatim>\<open>"A"\<close> scores
  \<open>-4\<close>, also through the caller that puts the longer sequence first.
\<close>

theorem align_pair_padding_failing_input:
  "align_pair blosum62 (encode ''**'') (encode ''A*'') = Some (- 8)
   \<and> align_pair blosum62 (encode ''**'') (encode ''A'') = Some (- 4)
   \<and> align_pairs [(0, 1)] [encode ''A*'', encode ''**''] blosum62 = Some [- 8]
   \<and> align_pairs [(0, 1)] [encode ''A'', encode ''**''] blosum62 = Some [- 4]"
proof -
  have a: "align_pair blosum62 [24, 24] [0, 24] = Some (- 8)"
    by code_simp
  have b: "align_pair blosum62 [24, 24] [0] = Some (- 4)"
    by code_simp
  have c: "align_pairs [(0, 1)] [[0, 24], [24, 24]] blosum62 = Some [- 8]"
    by (simp add: align_pairs_def a)
  have d: "align_pairs [(0, 1)] [[0], [24, 24]] blosum62 = Some [- 4]"
    by (simp add: align_pairs_def b)
  from a b c d show ?thesis unfolding encode_ACGT by (intro conjI)
qed

text \<open>
  C9. Under the table made for \<^verbatim>\<open>"blosum62"\<close>, whose penalty is 4, the empty sequence
  against \<^verbatim>\<open>"A"\<close> scores \<open>-4\<close> in either argument order, through the caller that puts the
  longer sequence first, and with any number of padding symbols after the \<^verbatim>\<open>A\<close>; the
  result \<open>Some\<close> says that every buffer access stayed in range.
\<close>

theorem empty_vs_A:
  "scoring_table_make ''blosum62'' = Inr blosum62 \<and> m_penalty blosum62 = 4
   \<and> align_pair blosum62 (encode '''') (encode ''A'') = Some (- 4)
   \<and> align_pair blosum62 (encode ''A'') (encode '''') = Some (- 4)
   \<and> align_pairs [(0, 1)] [encode '''', encode ''A''] blosum62 = Some [- 4]
   \<and> (\<forall>k. align_pair blosum62 (encode ''A'' @ replicate k padding) (encode '''') = Some (- 4))"
proof -
  have a: "align_pair blosum62 [] [0] = Some (- 4)"
    by code_simp
  have b: "align_pair blosum62 [0] [] = Some (- 4)"
    by code_simp
  have c: "align_pairs [(0, 1)] [[], [0]] blosum62 = Some [- 4]"
    by (simp add: align_pairs_def b)
  have d: "align_pair blosum62 ([0] @ replicate k padding) [] = Some (- 4)" for k
    using b by (simp only: align_pair_pad_one)
  have m: "scoring_table_make ''blosum62'' = Inr blosum62"
    by (simp add: scoring_table_make_def dispatcher_at_def table_dispatcher_def table_data_def
        blosum62_def)
  show ?thesis
    unfolding encode_ACGT using m a b c d by (simp add: blosum62_def)
qed


section \<open>Results: pipeline runner\<close>

lemma verify_all_pass:
  assumes "\<forall>k < length ms. check (ms ! k) io" "i \<le> length ms"
  shows "verify ms io i trace = (True, trace @ map Checked [i ..< length ms])"
  using assms(2)
proof (induction "length ms - i" arbitrary: i trace)
  case 0
  then show ?case by (subst verify.simps) simp
next
  case (Suc d)
  then have lt: "i < length ms" by simp
  have "verify ms io i trace = verify ms io (i + 1) (trace @ [Checked i])"
    using lt assms(1) by (subst verify.simps) simp
  also have "\<dots> = (True, (trace @ [Checked i]) @ map Checked [i + 1 ..< length ms])"
    using Suc.hyps(2) lt by (intro Suc.hyps(1)) simp_all
  also have "\<dots> = (True, trace @ map Checked [i ..< length ms])"
    using lt by (simp add: upt_conv_Cons)
  finally show ?case .
qed

lemma verify_first_failure:
  assumes "k < length ms" "\<not> check (ms ! k) io" "\<forall>m < k. check (ms ! m) io" "i \<le> k"
  shows "verify ms io i trace = (False, trace @ map Checked [i ..< Suc k])"
  using assms(4)
proof (induction "k - i" arbitrary: i trace)
  case 0
  then have "i = k" by simp
  then show ?case using assms(1,2) by (subst verify.simps) simp
next
  case (Suc d)
  then have lt: "i < k" by simp
  have "verify ms io i trace = verify ms io (i + 1) (trace @ [Checked i])"
    using lt assms(1,3) by (subst verify.simps) simp
  also have "\<dots> = (False, (trace @ [Checked i]) @ map Checked [i + 1 ..< Suc k])"
    using Suc.hyps(2) lt by (intro Suc.hyps(1)) simp_all
  also have "\<dots> = (False, trace @ map Checked [i ..< Suc k])"
    using lt by (simp add: upt_conv_Cons)
  finally show ?case .
qed

lemma execute_chain:
  assumes "i \<le> length ms" "pipe = conduit_after ms io i"
  shows "execute ms io i pipe trace =
     (conduit_after ms io (length ms), trace @ map (\<lambda>k. Ran k (conduit_after ms io k)) [i ..< length ms])"
  using assms
proof (induction "length ms - i" arbitrary: i pipe trace)
  case 0
  then show ?case by (subst execute.simps) simp
next
  case (Suc d)
  then have lt: "i < length ms" by simp
  have "execute ms io i pipe trace
      = execute ms io (i + 1) (run (ms ! i) io pipe) (trace @ [Ran i pipe])"
    using lt by (subst execute.simps) simp
  also have "\<dots> = (conduit_after ms io (length ms),
      (trace @ [Ran i pipe]) @ map (\<lambda>k. Ran k (conduit_after ms io k)) [i + 1 ..< length ms])"
    using Suc.hyps(2) Suc.prems(2) lt by (intro Suc.hyps(1)) simp_all
  also have "\<dots> = (conduit_after ms io (length ms),
      trace @ map (\<lambda>k. Ran k (conduit_after ms io k)) [i ..< length ms])"
    using lt Suc.prems(2) by (simp add: upt_conv_Cons)
  finally show ?case .
qed

lemma first_failure_exists:
  assumes "\<exists>k < length ms. \<not> check (ms ! k) io"
  shows "\<exists>k < length ms. \<not> check (ms ! k) io \<and> (\<forall>m < k. check (ms ! m) io)"
proof -
  let ?P = "\<lambda>k. k < length ms \<and> \<not> check (ms ! k) io"
  from assms have ex: "\<exists>k. ?P k" by blast
  let ?k = "LEAST k. ?P k"
  have "?P ?k" using ex by (rule LeastI_ex)
  moreover have "\<forall>m < ?k. check (ms ! m) io"
  proof (intro allI impI)
    fix m assume m: "m < ?k"
    then have "\<not> ?P m" by (rule not_less_Least)
    moreover have "m < length ms" using m \<open>?P ?k\<close> by simp
    ultimately show "check (ms ! m) io" by simp
  qed
  ultimately show ?thesis by blast
qed

text \<open>
  C8. Every call of a module's \<^verbatim>\<open>check\<close> precedes every call of a module's \<^verbatim>\<open>run\<close>. If some
  check returns false, the run fails with the verification failure at the first such
  module and the trace holds checks only: no module body was executed. Otherwise all
  checks are made, then the modules run in declaration order, each entered with the
  conduit its predecessor returned, and the conduit of the last stage is the result.
\<close>

theorem runner_run_spec:
  "((\<exists>k < length ms. \<not> check (ms ! k) io) \<longrightarrow>
      (\<exists>k < length ms. \<not> check (ms ! k) io \<and> (\<forall>m < k. check (ms ! m) io)
        \<and> runner_run ms io = (Inl PipelineVerificationFailed, map Checked [0 ..< Suc k])))
   \<and> ((\<forall>k < length ms. check (ms ! k) io) \<longrightarrow>
      runner_run ms io =
        (Inr (conduit_after ms io (length ms)),
         map Checked [0 ..< length ms] @ map (\<lambda>k. Ran k (conduit_after ms io k)) [0 ..< length ms]))"
proof (intro conjI impI)
  assume "\<exists>k < length ms. \<not> check (ms ! k) io"
  then have "\<exists>k < length ms. \<not> check (ms ! k) io \<and> (\<forall>m < k. check (ms ! m) io)"
    by (rule first_failure_exists)
  then obtain k where k: "k < length ms" "\<not> check (ms ! k) io" "\<forall>m < k. check (ms ! m) io"
    by (elim exE conjE)
  have "verify ms io 0 [] = (False, [] @ map Checked [0 ..< Suc k])"
    using k by (intro verify_first_failure) simp_all
  then have "runner_run ms io = (Inl PipelineVerificationFailed, map Checked [0 ..< Suc k])"
    by (simp add: runner_run_def)
  with k show "\<exists>k < length ms. \<not> check (ms ! k) io \<and> (\<forall>m < k. check (ms ! m) io)
        \<and> runner_run ms io = (Inl PipelineVerificationFailed, map Checked [0 ..< Suc k])"
    by (intro exI [of _ k] conjI)
next
  assume ok: "\<forall>k < length ms. check (ms ! k) io"
  have v: "verify ms io 0 [] = (True, [] @ map Checked [0 ..< length ms])"
    using ok by (intro verify_all_pass) simp_all
  have e: "execute ms io 0 None (map Checked [0 ..< length ms]) =
     (conduit_after ms io (length ms),
      map Checked [0 ..< length ms] @ map (\<lambda>k. Ran k (conduit_after ms io k)) [0 ..< length ms])"
    by (intro execute_chain) simp_all
  show "runner_run ms io =
        (Inr (conduit_after ms io (length ms)),
         map Checked [0 ..< length ms] @ map (\<lambda>k. Ran k (conduit_after ms io k)) [0 ..< length ms])"
    using v e by (simp add: runner_run_def)
qed

theorem runner_run_spec_witness:
  "length demo_modules = 3 \<and> \<not> check (demo_modules ! 1) False
   \<and> runner_run demo_modules False = (Inl PipelineVerificationFailed, [Checked 0, Checked 1])
   \<and> check (demo_modules ! 0) True \<and> check (demo_modules ! 1) True \<and> check (demo_modules ! 2) True
   \<and> runner_run demo_modules True =
       (Inr (Some 22), [Checked 0, Checked 1, Checked 2, Ran 0 None, Ran 1 (Some 1), Ran 2 (Some 11)])"
proof -
  have len: "length demo_modules = Suc (Suc (Suc 0))" by (simp add: demo_modules_def)
  have c: "check (demo_modules ! 0) io" "check (demo_modules ! Suc 0) io = io"
    "check (demo_modules ! Suc (Suc 0)) io" for io
    by (simp_all add: demo_modules_def)
  have bad: "\<exists>k < length demo_modules. \<not> check (demo_modules ! k) False"
    unfolding len using c(2) [of False] by (intro exI [of _ "Suc 0"]) simp
  have good: "\<forall>k < length demo_modules. check (demo_modules ! k) True"
    unfolding len using c [of True] by (simp add: All_less_Suc)
  have "\<exists>k < length demo_modules. \<not> check (demo_modules ! k) False
          \<and> (\<forall>m < k. check (demo_modules ! m) False)
          \<and> runner_run demo_modules False = (Inl PipelineVerificationFailed, map Checked [0 ..< Suc k])"
    using runner_run_spec [of demo_modules False, THEN conjunct1] bad by (rule mp)
  then obtain k where k: "k < Suc (Suc (Suc 0))" "\<not> check (demo_modules ! k) False"
    "runner_run demo_modules False = (Inl PipelineVerificationFailed, map Checked [0 ..< Suc k])"
    unfolding len by (elim exE conjE)
  from k(1) have "k = 0 \<or> k = Suc 0 \<or> k = Suc (Suc 0)" by (simp add: less_Suc_eq) 
  then have "k = Suc 0"
  proof (elim disjE)
    assume "k = 0" with k(2) c(1) [of False] show ?thesis by simp
  next
    assume "k = Suc 0" then show ?thesis .
  next
    assume "k = Suc (Suc 0)" with k(2) c(3) [of False] show ?thesis by simp
  qed
  with k(3) have fail:
    "runner_run demo_modules False = (Inl PipelineVerificationFailed, [Checked 0, Checked 1])"
    by (simp add: upt_rec)
  have "runner_run demo_modules True =
        (Inr (conduit_after demo_modules True (length demo_modules)),
         map Checked [0 ..< length demo_modules]
           @ map (\<lambda>k. Ran k (conduit_after demo_modules True k)) [0 ..< length demo_modules])"
    using runner_run_spec [of demo_modules True, THEN conjunct2] good by (rule mp)
  moreover have "conduit_after demo_modules True (Suc 0) = Some 1"
    "conduit_after demo_modules True (Suc (Suc 0)) = Some 11"
    "conduit_after demo_modules True (Suc (Suc (Suc 0))) = Some 22"
    by (simp_all add: demo_modules_def)
  ultimately have ok: "runner_run demo_modules True =
       (Inr (Some 22), [Checked 0, Checked 1, Checked 2, Ran 0 None, Ran 1 (Some 1), Ran 2 (Some 11)])"
    unfolding len by (simp add: upt_rec numeral_2_eq_2)
  have "length demo_modules = 3" "\<not> check (demo_modules ! 1) False"
    "check (demo_modules ! 0) True" "check (demo_modules ! 1) True" "check (demo_modules ! 2) True"
    by (simp_all add: demo_modules_def)
  with fail ok show ?thesis by (intro conjI)
qed

end
